(* ===== verification/Prelude.thy ===== *)
theory Prelude
  imports Main "HOL-Library.AList" "HOL-Library.Multiset"
begin

text \<open>
  Shared vocabulary of the selection development: the types of object ids and
  selection types, the JavaScript and lodash list primitives that
  \<^verbatim>\<open>src/share/selection.js\<close> relies on (truthiness of a nullable id,
  \<^verbatim>\<open>_.difference\<close>, \<^verbatim>\<open>_.intersection\<close>, \<^verbatim>\<open>indexOf\<close> with an in-place write),
  their generic lemmas, and the theorem collections the component theories fill.
\<close>

named_theorems unit_ops "unfolding rules of the selection unit operations"
named_theorems view_simps "how the operations act on the replicated fields"

type_synonym obj_id = string
type_synonym sel_type = string

text \<open>
  A JavaScript id slot holds a string or \<^verbatim>\<open>null\<close>: \<open>None\<close> is \<^verbatim>\<open>null\<close>.
  The code tests such slots with \<^verbatim>\<open>if (x)\<close>, under which the empty string is
  false as well.
\<close>

fun truthy :: "obj_id option \<Rightarrow> bool" where
  "truthy None = False"
| "truthy (Some s) = (s \<noteq> [])"

text \<open>\<^verbatim>\<open>_.difference(xs, ys)\<close>: the elements of \<open>xs\<close> not in \<open>ys\<close>, in order,
  duplicates of \<open>xs\<close> kept.\<close>

definition ld_difference :: "'a list \<Rightarrow> 'a list \<Rightarrow> 'a list" where
  "ld_difference xs ys = filter (\<lambda>x. x \<notin> set ys) xs"

text \<open>\<^verbatim>\<open>_.intersection(xs, ys)\<close>: the unique elements of \<open>xs\<close> that occur in
  \<open>ys\<close>, each at its first position in \<open>xs\<close>.\<close>

fun uniq :: "'a list \<Rightarrow> 'a list" where
  "uniq [] = []"
| "uniq (x # xs) = x # uniq (filter (\<lambda>y. y \<noteq> x) xs)"

definition ld_intersection :: "'a list \<Rightarrow> 'a list \<Rightarrow> 'a list" where
  "ld_intersection xs ys = uniq (filter (\<lambda>x. x \<in> set ys) xs)"

text \<open>\<^verbatim>\<open>var i = xs.indexOf(a); if (i !== -1) xs[i] = b;\<close>: the first
  occurrence of \<open>a\<close> is overwritten by \<open>b\<close>.\<close>

fun replace_first :: "'a \<Rightarrow> 'a \<Rightarrow> 'a list \<Rightarrow> 'a list" where
  "replace_first a b [] = []"
| "replace_first a b (x # xs) = (if x = a then b # xs else x # replace_first a b xs)"

text \<open>\<^verbatim>\<open>xs.indexOf(a)\<close>, with \<open>None\<close> for the result \<^verbatim>\<open>-1\<close>.\<close>

fun index_of :: "'a list \<Rightarrow> 'a \<Rightarrow> nat option" where
  "index_of [] a = None"
| "index_of (x # xs) a = (if x = a then Some 0 else map_option Suc (index_of xs a))"

subsection \<open>Generic lemmas\<close>

lemma set_uniq [simp]: "set (uniq xs) = set xs"
  by (induction xs rule: uniq.induct) auto

lemma distinct_uniq [simp]: "distinct (uniq xs)"
  by (induction xs rule: uniq.induct) auto

lemma uniq_distinct [simp]: "distinct xs \<Longrightarrow> uniq xs = xs"
proof (induction xs rule: uniq.induct)
  case (2 x xs)
  then have "filter (\<lambda>y. y \<noteq> x) xs = xs" by (auto simp: filter_id_conv)
  with 2 show ?case by simp
qed simp

lemma set_ld_difference [simp]: "set (ld_difference xs ys) = set xs - set ys"
  by (auto simp: ld_difference_def)

lemma distinct_ld_difference [simp]: "distinct xs \<Longrightarrow> distinct (ld_difference xs ys)"
  by (simp add: ld_difference_def)

lemma ld_difference_Nil [simp]: "ld_difference [] ys = []"
  by (simp add: ld_difference_def)

lemma ld_difference_Nil_iff: "ld_difference xs ys = [] \<longleftrightarrow> set xs \<subseteq> set ys"
  by (auto simp: ld_difference_def filter_empty_conv)

lemma set_ld_intersection [simp]: "set (ld_intersection xs ys) = set xs \<inter> set ys"
  by (auto simp: ld_intersection_def)

lemma distinct_ld_intersection [simp]: "distinct (ld_intersection xs ys)"
  by (simp add: ld_intersection_def)

lemma ld_intersection_distinct:
  "distinct xs \<Longrightarrow> ld_intersection xs ys = filter (\<lambda>x. x \<in> set ys) xs"
  by (simp add: ld_intersection_def)

lemma filter_in_subset [simp]: "set xs \<subseteq> set ys \<Longrightarrow> filter (\<lambda>x. x \<in> set ys) xs = xs"
  by (auto simp: filter_id_conv)

lemma filter_notin_self [simp]: "filter (\<lambda>x. x \<notin> set xs) xs = []"
  by (simp add: filter_empty_conv)

lemma filter_neq_notin [simp]: "x \<notin> set xs \<Longrightarrow> filter (\<lambda>y. y \<noteq> x) xs = xs"
  by (auto simp: filter_id_conv)

lemma replace_first_notin [simp]: "a \<notin> set xs \<Longrightarrow> replace_first a b xs = xs"
  by (induction xs) auto

lemma set_replace_first_in:
  "a \<in> set xs \<Longrightarrow> distinct xs \<Longrightarrow> set (replace_first a b xs) = insert b (set xs - {a})"
  by (induction xs) auto

lemma distinct_replace_first:
  "distinct xs \<Longrightarrow> b \<notin> set xs \<Longrightarrow> distinct (replace_first a b xs)"
proof (induction xs)
  case (Cons x xs)
  then show ?case by (cases "a \<in> set xs") (auto simp: set_replace_first_in)
qed simp

lemma replace_first_back:
  "b \<notin> set xs \<Longrightarrow> replace_first b a (replace_first a b xs) = xs"
  by (induction xs) auto

lemma remove1_distinct_filter:
  "distinct xs \<Longrightarrow> remove1 x xs = filter (\<lambda>y. y \<noteq> x) xs"
  by (induction xs) (auto intro!: filter_True [symmetric])

lemma index_of_Some: "index_of xs a = Some i \<Longrightarrow> i < length xs \<and> xs ! i = a"
  by (induction xs arbitrary: i) (auto split: if_splits)

lemma index_of_None [simp]: "index_of xs a = None \<longleftrightarrow> a \<notin> set xs"
  by (induction xs) auto


lemma filter_member_imp: "filter (\<lambda>x. x \<in> set xs \<longrightarrow> P x) xs = filter P xs"
  by (auto intro: filter_cong)

lemma update_self: "map_of al k = Some v \<Longrightarrow> AList.update k v al = al"
  by (induction al) (auto split: if_splits)

lemma update_twice: "AList.update k v (AList.update k v' al) = AList.update k v al"
  by (induction al) auto

lemma set_map_update: "set (map f (AList.update k v al)) \<subseteq> insert (f (k, v)) (set (map f al))"
  by (induction al) auto

lemma update_append_hit:
  "k \<notin> set (map fst pre) \<Longrightarrow> AList.update k v (pre @ (k, x) # rest) = pre @ (k, v) # rest"
  by (induction pre) auto

lemma map_of_append_hit:
  "k \<notin> set (map fst pre) \<Longrightarrow> map_of (pre @ (k, x) # rest) k = Some x"
  by (induction pre) auto


lemma src_notin_replace_first:
  "distinct xs \<Longrightarrow> a \<noteq> b \<Longrightarrow> a \<notin> set (replace_first a b xs)"
  by (cases "a \<in> set xs") (simp_all add: set_replace_first_in)

lemma filter_and_member: "filter (\<lambda>x. P x \<and> x \<in> set xs) xs = filter P xs"
  by (auto intro: filter_cong)

lemma update_fresh: "map_of al k = None \<Longrightarrow> AList.update k v al = al @ [(k, v)]"
  by (induction al) (auto split: if_splits)

end
