(* ===== verification/Messages.thy ===== *)
theory Messages
  imports Prelude
begin

text \<open>
  The message catalog of \<^verbatim>\<open>src/share/selection.js\<close> (the \<^verbatim>\<open>IPC_*\<close>
  constants) and \<^verbatim>\<open>_sendToAll\<close>, which broadcasts every message twice: once
  under the internal name \<^verbatim>\<open>_selection:xxx\<close> to every other process (the
  replication copy) and once under the public name \<^verbatim>\<open>selection:xxx\<close> for
  observers. The transport is modelled by an outbox: the ordered list of envelopes
  a process has sent. The process-wide pointer \<^verbatim>\<open>_lastActiveUnit\<close> lives
  beside the outbox in the record \<open>io\<close>, the part of the process state every
  unit operation may write; the pointer is the type key of the unit, never the unit.
\<close>

datatype msg =
    Selected sel_type "obj_id list"
  | Unselected sel_type "obj_id list"
  | Activated sel_type "obj_id option"
  | Deactivated sel_type "obj_id option"
  | HoverIn sel_type "obj_id option"
  | HoverOut sel_type "obj_id option"
  | Context sel_type "obj_id option"
  | Changed sel_type
  | Patch sel_type obj_id obj_id

datatype envelope = Internal msg | Public msg

definition send_to_all :: "msg \<Rightarrow> envelope list" where
  "send_to_all m = [Internal m, Public m]"

record io =
  last_active_unit :: "sel_type option"
  outbox :: "envelope list"

definition emit :: "msg \<Rightarrow> 'a io_scheme \<Rightarrow> 'a io_scheme" where
  "emit m w = w\<lparr>outbox := outbox w @ send_to_all m\<rparr>"

text \<open>The replication copies of an outbox, in sending order, and the public ones.\<close>

fun internal_msgs :: "envelope list \<Rightarrow> msg list" where
  "internal_msgs [] = []"
| "internal_msgs (Internal m # es) = m # internal_msgs es"
| "internal_msgs (Public m # es) = internal_msgs es"

fun public_msgs :: "envelope list \<Rightarrow> msg list" where
  "public_msgs [] = []"
| "public_msgs (Internal m # es) = public_msgs es"
| "public_msgs (Public m # es) = m # public_msgs es"

lemma emit_fields [simp]:
  "last_active_unit (emit m w) = last_active_unit w"
  "outbox (emit m w) = outbox w @ send_to_all m"
  "io.more (emit m w) = io.more w"
  by (simp_all add: emit_def)

lemma internal_msgs_append [simp]:
  "internal_msgs (xs @ ys) = internal_msgs xs @ internal_msgs ys"
  by (induction xs rule: internal_msgs.induct) auto

lemma public_msgs_append [simp]:
  "public_msgs (xs @ ys) = public_msgs xs @ public_msgs ys"
  by (induction xs rule: public_msgs.induct) auto

lemma msgs_send_to_all [simp]:
  "internal_msgs (send_to_all m) = [m]"
  "public_msgs (send_to_all m) = [m]"
  by (simp_all add: send_to_all_def)

lemma emit_last_active_unit_update [simp]:
  "emit m (w\<lparr>last_active_unit := x\<rparr>) = (emit m w)\<lparr>last_active_unit := x\<rparr>"
  by (simp add: emit_def)


lemma lau_update_same: "last_active_unit w = x \<Longrightarrow> w\<lparr>last_active_unit := x\<rparr> = w"
  by (cases w) simp

end
