(* ===== verification/Unit.thy ===== *)
theory Unit
  imports Messages
begin

text \<open>
  \<^verbatim>\<open>SelectionUnit\<close> of \<^verbatim>\<open>src/share/selection.js\<close> (lines 36--215): the
  per-type selection state and its primitive mutators. The JavaScript object is the
  record \<open>sunit\<close>; \<^verbatim>\<open>ConfirmableSelectionUnit\<close> extends it by inheritance,
  which is the record extension \<open>cunit\<close>. The registry only ever creates
  \<^verbatim>\<open>ConfirmableSelectionUnit\<close>s, so the call \<^verbatim>\<open>this._activate\<close> inside the
  base methods always dispatches to the override of lines 228--232: the base
  \<^verbatim>\<open>_activate\<close> is \<open>sunit_activate\<close>, the override \<open>activate\<close>, and the
  base methods below call the override. Each operation takes the unit and the
  process-wide \<open>io\<close> state and returns both updated.
\<close>

record sunit =
  unit_type :: sel_type
  selection :: "obj_id list"
  lastActive :: "obj_id option"
  lastHover :: "obj_id option"
  context_id :: "obj_id option"

record cunit = sunit +
  confirmed :: bool
  confirmedSnapShot :: "obj_id list"

definition new_cunit :: "sel_type \<Rightarrow> cunit" where
  "new_cunit t = \<lparr>unit_type = t, selection = [], lastActive = None, lastHover = None,
     context_id = None, confirmed = True, confirmedSnapShot = []\<rparr>"

text \<open>The id argument of \<^verbatim>\<open>select\<close> and \<^verbatim>\<open>unselect\<close>: one id or an array.\<close>

datatype id_arg = Single obj_id | Multi "obj_id list"

fun as_array :: "id_arg \<Rightarrow> obj_id list" where
  "as_array (Single x) = [x]"
| "as_array (Multi xs) = xs"

subsection \<open>Activation\<close>

definition sunit_activate ::
  "obj_id option \<Rightarrow> 'b sunit_scheme \<Rightarrow> 'a io_scheme \<Rightarrow> 'b sunit_scheme \<times> 'a io_scheme" where
  "sunit_activate i u w =
    (if lastActive u \<noteq> i then
       (let w1 = (if truthy (lastActive u)
                  then emit (Deactivated (unit_type u) (lastActive u)) w else w);
            u1 = u\<lparr>lastActive := i\<rparr>;
            w2 = emit (Activated (unit_type u) i) w1
        in (u1, w2\<lparr>last_active_unit := Some (unit_type u)\<rparr>))
     else (u, w))"

definition activate :: "obj_id option \<Rightarrow> cunit \<Rightarrow> 'a io_scheme \<Rightarrow> cunit \<times> 'a io_scheme" where
  "activate i u w = (if confirmed u then sunit_activate i u w else (u, w))"

subsection \<open>Select\<close>

definition unselect_others ::
  "obj_id list \<Rightarrow> cunit \<Rightarrow> 'a io_scheme \<Rightarrow> bool \<times> cunit \<times> 'a io_scheme" where
  "unselect_others ids u w =
    (let unselected = ld_difference (selection u) ids
     in if unselected \<noteq> []
        then (True, u\<lparr>selection := ld_intersection (selection u) ids\<rparr>,
              emit (Unselected (unit_type u) unselected) w)
        else (False, u, w))"

text \<open>The \<^verbatim>\<open>if (id.length)\<close> block of \<^verbatim>\<open>select\<close> (lines 90--100).\<close>

definition select_add ::
  "obj_id list \<Rightarrow> bool \<Rightarrow> cunit \<Rightarrow> 'a io_scheme \<Rightarrow> bool \<times> cunit \<times> 'a io_scheme" where
  "select_add ids changed u w =
    (if ids \<noteq> [] then
       (let diff = ld_difference ids (selection u);
            (c1, u1, w1) = (if diff \<noteq> []
                            then (True, u\<lparr>selection := selection u @ diff\<rparr>,
                                  emit (Selected (unit_type u) diff) w)
                            else (changed, u, w));
            (u2, w2) = activate (Some (last ids)) u1 w1
        in (c1, u2, w2))
     else (changed, u, w))"

definition emit_changed :: "bool \<Rightarrow> cunit \<Rightarrow> 'a io_scheme \<Rightarrow> cunit \<times> 'a io_scheme" where
  "emit_changed changed u w = (if changed then (u, emit (Changed (unit_type u)) w) else (u, w))"

definition unit_select ::
  "id_arg \<Rightarrow> bool \<Rightarrow> cunit \<Rightarrow> 'a io_scheme \<Rightarrow> cunit \<times> 'a io_scheme" where
  "unit_select arg unselectOthers u w =
    (let ids = as_array arg;
         (c1, u1, w1) = (if unselectOthers then unselect_others ids u w else (False, u, w));
         (c2, u2, w2) = select_add ids c1 u1 w1
     in emit_changed c2 u2 w2)"

subsection \<open>Unselect\<close>

text \<open>The \<^verbatim>\<open>for\<close> loop of the array branch of \<^verbatim>\<open>unselect\<close>
  (lines 123--130); its state is the selection, the removed ids and
  \<^verbatim>\<open>unselectActiveObj\<close>.\<close>

fun unselect_loop ::
  "obj_id option \<Rightarrow> obj_id list \<Rightarrow> obj_id list \<times> obj_id list \<times> bool
     \<Rightarrow> obj_id list \<times> obj_id list \<times> bool" where
  "unselect_loop la [] st = st"
| "unselect_loop la (x # xs) (sel, diff, ua) =
    (if x \<in> set sel
     then unselect_loop la xs (remove1 x sel, diff @ [x], ua \<or> Some x = la)
     else unselect_loop la xs (sel, diff, ua))"

definition unselect_remove ::
  "id_arg \<Rightarrow> cunit \<Rightarrow> 'a io_scheme \<Rightarrow> bool \<times> bool \<times> cunit \<times> 'a io_scheme" where
  "unselect_remove arg u w =
    (case arg of
       Single x \<Rightarrow>
         (if x \<in> set (selection u)
          then (True, Some x = lastActive u, u\<lparr>selection := remove1 x (selection u)\<rparr>,
                emit (Unselected (unit_type u) [x]) w)
          else (False, False, u, w))
     | Multi ids \<Rightarrow>
         (if ids \<noteq> [] then
            (let (sel, diff, ua) = unselect_loop (lastActive u) ids (selection u, [], False)
             in if diff \<noteq> []
                then (True, ua, u\<lparr>selection := sel\<rparr>, emit (Unselected (unit_type u) diff) w)
                else (False, ua, u\<lparr>selection := sel\<rparr>, w))
          else (False, False, u, w)))"

definition last_or_null :: "obj_id list \<Rightarrow> obj_id option" where
  "last_or_null xs = (if xs \<noteq> [] then Some (last xs) else None)"

definition unit_unselect :: "id_arg \<Rightarrow> cunit \<Rightarrow> 'a io_scheme \<Rightarrow> cunit \<times> 'a io_scheme" where
  "unit_unselect arg u w =
    (let (changed, ua, u1, w1) = unselect_remove arg u w;
         (u2, w2) = (if ua then activate (last_or_null (selection u1)) u1 w1 else (u1, w1))
     in emit_changed changed u2 w2)"

subsection \<open>Hover, context, patch, contexts, clear\<close>

definition unit_hover :: "obj_id option \<Rightarrow> cunit \<Rightarrow> 'a io_scheme \<Rightarrow> cunit \<times> 'a io_scheme" where
  "unit_hover i u w =
    (if lastHover u \<noteq> i then
       (let w1 = (if truthy (lastHover u)
                  then emit (HoverOut (unit_type u) (lastHover u)) w else w);
            w2 = (if truthy i then emit (HoverIn (unit_type u) i) w1 else w1)
        in (u\<lparr>lastHover := i\<rparr>, w2))
     else (u, w))"

definition unit_setContext ::
  "obj_id option \<Rightarrow> cunit \<Rightarrow> 'a io_scheme \<Rightarrow> cunit \<times> 'a io_scheme" where
  "unit_setContext i u w = (u\<lparr>context_id := i\<rparr>, emit (Context (unit_type u) i) w)"

definition patch_slot :: "obj_id \<Rightarrow> obj_id \<Rightarrow> obj_id option \<Rightarrow> obj_id option" where
  "patch_slot src dest x = (if x = Some src then Some dest else x)"

text \<open>The field rewrites of \<^verbatim>\<open>patch\<close>, shared with the replication handler
  of \<^verbatim>\<open>_selection:patch\<close> (lines 667--679), which repeats them.\<close>

definition patch_fields :: "obj_id \<Rightarrow> obj_id \<Rightarrow> 'b sunit_scheme \<Rightarrow> 'b sunit_scheme" where
  "patch_fields src dest u =
    u\<lparr>selection := replace_first src dest (selection u),
      lastActive := patch_slot src dest (lastActive u),
      lastHover := patch_slot src dest (lastHover u),
      context_id := patch_slot src dest (context_id u)\<rparr>"

definition unit_patch :: "obj_id \<Rightarrow> obj_id \<Rightarrow> cunit \<Rightarrow> 'a io_scheme \<Rightarrow> cunit \<times> 'a io_scheme" where
  "unit_patch src dest u w = (patch_fields src dest u, emit (Patch (unit_type u) src dest) w)"

definition contexts :: "'b sunit_scheme \<Rightarrow> obj_id list" where
  "contexts u =
    (case context_id u of
       None \<Rightarrow> []
     | Some c \<Rightarrow>
         (if c = [] then []
          else (case index_of (selection u) c of
                  Some i \<Rightarrow> (selection u)[0 := c, i := hd (selection u)]
                | None \<Rightarrow> [c])))"

definition unit_clear :: "cunit \<Rightarrow> 'a io_scheme \<Rightarrow> cunit \<times> 'a io_scheme" where
  "unit_clear u w =
    (let w1 = emit (Unselected (unit_type u) (selection u)) w;
         (u2, w2) = activate None (u\<lparr>selection := []\<rparr>) w1
     in (u2, emit (Changed (unit_type u)) w2))"

subsection \<open>The unit invariant\<close>

text \<open>
  The data-model invariant of the spec (section 3): the selection holds no duplicate;
  in the confirmed state \<^verbatim>\<open>lastActive\<close> is null or selected and the snapshot is
  empty; during a transaction activation is frozen, so \<^verbatim>\<open>lastActive\<close> is null or
  a member of the snapshot taken when the transaction began.
\<close>

definition active_in :: "obj_id option \<Rightarrow> obj_id list \<Rightarrow> bool" where
  "active_in x xs = (case x of None \<Rightarrow> True | Some a \<Rightarrow> a \<in> set xs)"

definition unit_inv :: "cunit \<Rightarrow> bool" where
  "unit_inv u \<longleftrightarrow> distinct (selection u) \<and>
     (if confirmed u then active_in (lastActive u) (selection u) \<and> confirmedSnapShot u = []
      else active_in (lastActive u) (confirmedSnapShot u) \<and> distinct (confirmedSnapShot u))"

text \<open>The envelopes one call of \<open>activate\<close> sends.\<close>

definition activation_out :: "cunit \<Rightarrow> obj_id option \<Rightarrow> envelope list" where
  "activation_out u i =
    (if confirmed u \<and> lastActive u \<noteq> i
     then (if truthy (lastActive u) then send_to_all (Deactivated (unit_type u) (lastActive u)) else [])
          @ send_to_all (Activated (unit_type u) i)
     else [])"

text \<open>A unit of type \<^verbatim>\<open>node\<close> whose selected, active, hovered and context id is
  \<^verbatim>\<open>a\<close>: the input of the patch examples.\<close>

abbreviation patch_demo :: cunit where
  "patch_demo \<equiv> (new_cunit ''node'')\<lparr>selection := [''a'', ''b''], lastActive := Some ''a'',
     lastHover := Some ''a'', context_id := Some ''a''\<rparr>"

subsection \<open>Effect of each operation on the unit\<close>

lemma active_in_simps [simp]:
  "active_in None xs"
  "active_in (Some a) xs \<longleftrightarrow> a \<in> set xs"
  by (simp_all add: active_in_def)

lemma activate_eq:
  "activate i u w =
    (if confirmed u \<and> lastActive u \<noteq> i
     then (u\<lparr>lastActive := i\<rparr>,
           (emit (Activated (unit_type u) i)
              (if truthy (lastActive u) then emit (Deactivated (unit_type u) (lastActive u)) w else w))
             \<lparr>last_active_unit := Some (unit_type u)\<rparr>)
     else (u, w))"
  by (simp add: activate_def sunit_activate_def Let_def)

lemma activate_unit [simp]:
  "fst (activate i u w) = u\<lparr>lastActive := (if confirmed u then i else lastActive u)\<rparr>"
  by (simp add: activate_eq)

lemma unselect_others_unit [simp]:
  "distinct (selection u) \<Longrightarrow>
   fst (snd (unselect_others ids u w)) = u\<lparr>selection := filter (\<lambda>x. x \<in> set ids) (selection u)\<rparr>"
  by (simp add: unselect_others_def Let_def ld_intersection_distinct ld_difference_Nil_iff)

lemma select_add_unit [simp]:
  "fst (snd (select_add ids c u w)) =
    (if ids = [] then u
     else u\<lparr>selection := selection u @ ld_difference ids (selection u),
            lastActive := (if confirmed u then Some (last ids) else lastActive u)\<rparr>)"
  by (auto simp: select_add_def Let_def split_beta)

lemma unit_select_parts:
  "unit_select arg uo u w =
    (let r1 = (if uo then unselect_others (as_array arg) u w else (False, u, w));
         r2 = select_add (as_array arg) (fst r1) (fst (snd r1)) (snd (snd r1))
     in emit_changed (fst r2) (fst (snd r2)) (snd (snd r2)))"
  by (simp add: unit_select_def Let_def split_beta)

lemma emit_changed_unit [simp]: "fst (emit_changed c u w) = u"
  by (simp add: emit_changed_def)

lemma unit_select_unit:
  "distinct (selection u) \<Longrightarrow>
   fst (unit_select arg uo u w) =
    (let ids = as_array arg;
         sel1 = (if uo then filter (\<lambda>x. x \<in> set ids) (selection u) else selection u)
     in if ids = [] then u\<lparr>selection := sel1\<rparr>
        else u\<lparr>selection := sel1 @ ld_difference ids sel1,
               lastActive := (if confirmed u then Some (last ids) else lastActive u)\<rparr>)"
  by (simp add: unit_select_parts Let_def)

lemma unselect_loop_eq:
  "distinct sel \<Longrightarrow>
   unselect_loop la xs (sel, d, ua) =
     (filter (\<lambda>y. y \<notin> set xs) sel, d @ ld_intersection xs sel,
      ua \<or> (\<exists>x\<in>set xs. x \<in> set sel \<and> la = Some x))"
proof (induction xs arbitrary: sel d ua)
  case Nil
  then show ?case by (simp add: ld_intersection_def)
next
  case (Cons x xs)
  show ?case
  proof (cases "x \<in> set sel")
    case True
    have sel': "set (remove1 x sel) = set sel - {x}" and "distinct (remove1 x sel)"
      using Cons.prems by auto
    have "filter (\<lambda>y. y \<in> set sel - {x}) xs = filter (\<lambda>y. y \<noteq> x) (filter (\<lambda>y. y \<in> set sel) xs)"
      by (auto simp: filter_filter intro: filter_cong)
    with True Cons.prems Cons.IH [OF \<open>distinct (remove1 x sel)\<close>] sel' show ?thesis
      by (auto simp: ld_intersection_def remove1_distinct_filter filter_filter)
  next
    case False
    with Cons.prems Cons.IH [of sel] show ?thesis
      by (auto simp: ld_intersection_def intro: filter_cong)
  qed
qed

lemma unselect_remove_unit [simp]:
  "distinct (selection u) \<Longrightarrow>
   fst (snd (snd (unselect_remove arg u w))) =
     u\<lparr>selection := filter (\<lambda>y. y \<notin> set (as_array arg)) (selection u)\<rparr>"
  by (cases arg) (auto simp: unselect_remove_def unselect_loop_eq remove1_distinct_filter Let_def)

lemma unselect_remove_hit:
  "distinct (selection u) \<Longrightarrow>
   fst (snd (unselect_remove arg u w)) =
     (\<exists>x\<in>set (as_array arg). x \<in> set (selection u) \<and> lastActive u = Some x)"
  by (cases arg) (auto simp: unselect_remove_def unselect_loop_eq Let_def)

lemma unit_unselect_parts:
  "unit_unselect arg u w =
    (let r1 = unselect_remove arg u w;
         r2 = (if fst (snd r1) then activate (last_or_null (selection (fst (snd (snd r1)))))
                 (fst (snd (snd r1))) (snd (snd (snd r1)))
               else (fst (snd (snd r1)), snd (snd (snd r1))))
     in emit_changed (fst r1) (fst r2) (snd r2))"
  by (simp add: unit_unselect_def Let_def split_beta)

lemma unit_unselect_unit:
  "distinct (selection u) \<Longrightarrow>
   fst (unit_unselect arg u w) =
    (let sel' = filter (\<lambda>y. y \<notin> set (as_array arg)) (selection u);
         hit = (\<exists>x\<in>set (as_array arg). x \<in> set (selection u) \<and> lastActive u = Some x)
     in u\<lparr>selection := sel',
          lastActive := (if hit \<and> confirmed u then last_or_null sel' else lastActive u)\<rparr>)"
  by (auto simp: unit_unselect_parts unselect_remove_hit Let_def)

lemma unit_hover_unit [simp]: "fst (unit_hover i u w) = u\<lparr>lastHover := i\<rparr>"
  by (simp add: unit_hover_def Let_def)

lemma unit_setContext_unit [simp]: "fst (unit_setContext i u w) = u\<lparr>context_id := i\<rparr>"
  by (simp add: unit_setContext_def)

lemma unit_patch_unit [simp]: "fst (unit_patch src dest u w) = patch_fields src dest u"
  by (simp add: unit_patch_def)

lemma unit_clear_unit [simp]:
  "fst (unit_clear u w) = u\<lparr>selection := [], lastActive := (if confirmed u then None else lastActive u)\<rparr>"
  by (simp add: unit_clear_def Let_def split_beta)

lemma active_in_last_or_null [simp]: "active_in (last_or_null xs) xs"
  by (simp add: last_or_null_def)

lemma unit_select_inv:
  assumes "unit_inv u" and "distinct (as_array arg)" and "as_array arg \<noteq> [] \<or> \<not> uo"
  shows "unit_inv (fst (unit_select arg uo u w))"
proof -
  let ?ids = "as_array arg"
  define sel1 where "sel1 = (if uo then filter (\<lambda>x. x \<in> set ?ids) (selection u) else selection u)"
  have d1: "distinct sel1" using assms(1) by (simp add: sel1_def unit_inv_def)
  then have d2: "distinct (sel1 @ ld_difference ?ids sel1)"
    using assms(2) by auto
  have "last ?ids \<in> set (sel1 @ ld_difference ?ids sel1)" if "?ids \<noteq> []"
    using that by auto
  with d1 d2 assms show ?thesis
    by (auto simp: unit_select_unit unit_inv_def Let_def sel1_def [symmetric] split: if_splits)
qed

lemma unit_unselect_inv:
  assumes "unit_inv u"
  shows "unit_inv (fst (unit_unselect arg u w))"
proof -
  have d: "distinct (selection u)" using assms by (simp add: unit_inv_def)
  show ?thesis
    using assms d by (cases "lastActive u") (auto simp: unit_unselect_unit unit_inv_def Let_def split: if_splits)
qed

lemma unit_hover_inv: "unit_inv u \<Longrightarrow> unit_inv (fst (unit_hover i u w))"
  by (simp add: unit_inv_def)

lemma unit_setContext_inv: "unit_inv u \<Longrightarrow> unit_inv (fst (unit_setContext i u w))"
  by (simp add: unit_inv_def)

lemma unit_clear_inv: "unit_inv u \<Longrightarrow> unit_inv (fst (unit_clear u w))"
  by (simp add: unit_inv_def split: if_splits)

lemma unit_patch_inv:
  assumes "unit_inv u" and "dest \<notin> set (selection u)" and "confirmed u \<or> lastActive u \<noteq> Some src"
  shows "unit_inv (fst (unit_patch src dest u w))"
  using assms
  by (cases "src \<in> set (selection u)")
     (auto simp: unit_inv_def patch_fields_def patch_slot_def set_replace_first_in
        distinct_replace_first active_in_def split: option.splits if_splits)


subsection \<open>Messages and the global pointer written by each operation\<close>

lemma outbox_activate [simp]: "outbox (snd (activate i u w)) = outbox w @ activation_out u i"
  by (simp add: activate_eq activation_out_def)

lemma last_active_unit_activate [simp]:
  "last_active_unit (snd (activate i u w)) =
    (if confirmed u \<and> lastActive u \<noteq> i then Some (unit_type u) else last_active_unit w)"
  by (simp add: activate_eq)

lemma unselect_others_frame [simp]:
  "unit_type (fst (snd (unselect_others ids u w))) = unit_type u"
  "lastActive (fst (snd (unselect_others ids u w))) = lastActive u"
  "lastHover (fst (snd (unselect_others ids u w))) = lastHover u"
  "context_id (fst (snd (unselect_others ids u w))) = context_id u"
  "confirmed (fst (snd (unselect_others ids u w))) = confirmed u"
  "confirmedSnapShot (fst (snd (unselect_others ids u w))) = confirmedSnapShot u"
  by (simp_all add: unselect_others_def Let_def)

lemma unselect_remove_frame [simp]:
  "unit_type (fst (snd (snd (unselect_remove arg u w)))) = unit_type u"
  "lastActive (fst (snd (snd (unselect_remove arg u w)))) = lastActive u"
  "lastHover (fst (snd (snd (unselect_remove arg u w)))) = lastHover u"
  "context_id (fst (snd (snd (unselect_remove arg u w)))) = context_id u"
  "confirmed (fst (snd (snd (unselect_remove arg u w)))) = confirmed u"
  "confirmedSnapShot (fst (snd (snd (unselect_remove arg u w)))) = confirmedSnapShot u"
  "last_active_unit (snd (snd (snd (unselect_remove arg u w)))) = last_active_unit w"
  by (simp_all add: unselect_remove_def Let_def split_beta split: id_arg.splits)

lemma outbox_unselect_others [simp]:
  "outbox (snd (snd (unselect_others ids u w))) =
    outbox w @ (if ld_difference (selection u) ids \<noteq> []
                then send_to_all (Unselected (unit_type u) (ld_difference (selection u) ids)) else [])"
  by (simp add: unselect_others_def Let_def)

lemma last_active_unit_unselect_others [simp]:
  "last_active_unit (snd (snd (unselect_others ids u w))) = last_active_unit w"
  by (simp add: unselect_others_def Let_def)

lemma fst_unselect_others: "fst (unselect_others ids u w) = (ld_difference (selection u) ids \<noteq> [])"
  by (simp add: unselect_others_def Let_def)

lemma outbox_select_add [simp]:
  "outbox (snd (snd (select_add ids c u w))) =
    outbox w @ (if ids = [] then []
                else (if ld_difference ids (selection u) \<noteq> []
                      then send_to_all (Selected (unit_type u) (ld_difference ids (selection u))) else [])
                     @ activation_out u (Some (last ids)))"
  by (auto simp: select_add_def Let_def split_beta activation_out_def)

lemma last_active_unit_select_add [simp]:
  "last_active_unit (snd (snd (select_add ids c u w))) =
    (if ids \<noteq> [] \<and> confirmed u \<and> lastActive u \<noteq> Some (last ids) then Some (unit_type u)
     else last_active_unit w)"
  by (auto simp: select_add_def Let_def split_beta)

lemma fst_select_add:
  "fst (select_add ids c u w) = (if ids \<noteq> [] \<and> ld_difference ids (selection u) \<noteq> [] then True else c)"
  by (auto simp: select_add_def Let_def split_beta)

lemma emit_changed_io [simp]:
  "outbox (snd (emit_changed c u w)) = outbox w @ (if c then send_to_all (Changed (unit_type u)) else [])"
  "last_active_unit (snd (emit_changed c u w)) = last_active_unit w"
  by (simp_all add: emit_changed_def)

lemma last_active_unit_unit_select:
  "last_active_unit (snd (unit_select arg uo u w)) =
    (if as_array arg \<noteq> [] \<and> confirmed u \<and> lastActive u \<noteq> Some (last (as_array arg))
     then Some (unit_type u) else last_active_unit w)"
  by (cases uo) (simp_all add: unit_select_parts Let_def)

lemma unselect_remove_out:
  "distinct (selection u) \<Longrightarrow>
   outbox (snd (snd (snd (unselect_remove arg u w)))) =
     outbox w @ (if ld_intersection (as_array arg) (selection u) \<noteq> []
                 then send_to_all (Unselected (unit_type u) (ld_intersection (as_array arg) (selection u)))
                 else [])"
  "distinct (selection u) \<Longrightarrow>
   fst (unselect_remove arg u w) = (ld_intersection (as_array arg) (selection u) \<noteq> [])"
  by (cases arg; auto simp: unselect_remove_def unselect_loop_eq Let_def ld_intersection_def
      filter_empty_conv)+

lemma unit_hover_io [simp]:
  "last_active_unit (snd (unit_hover i u w)) = last_active_unit w"
  "outbox (snd (unit_hover i u w)) =
     outbox w @ (if lastHover u \<noteq> i
                 then (if truthy (lastHover u) then send_to_all (HoverOut (unit_type u) (lastHover u)) else [])
                      @ (if truthy i then send_to_all (HoverIn (unit_type u) i) else [])
                 else [])"
  by (simp_all add: unit_hover_def Let_def)

lemma unit_setContext_io [simp]:
  "last_active_unit (snd (unit_setContext i u w)) = last_active_unit w"
  "outbox (snd (unit_setContext i u w)) = outbox w @ send_to_all (Context (unit_type u) i)"
  by (simp_all add: unit_setContext_def)

lemma unit_patch_io [simp]:
  "last_active_unit (snd (unit_patch src dest u w)) = last_active_unit w"
  "outbox (snd (unit_patch src dest u w)) = outbox w @ send_to_all (Patch (unit_type u) src dest)"
  by (simp_all add: unit_patch_def)

lemma unit_clear_io [simp]:
  "last_active_unit (snd (unit_clear u w)) =
     (if confirmed u \<and> lastActive u \<noteq> None then Some (unit_type u) else last_active_unit w)"
  "outbox (snd (unit_clear u w)) =
     outbox w @ send_to_all (Unselected (unit_type u) (selection u))
       @ activation_out u None @ send_to_all (Changed (unit_type u))"
  by (auto simp: unit_clear_def Let_def split_beta activation_out_def)


subsection \<open>Frame: what no unit operation touches\<close>

lemma io_more_activate [simp]: "io.more (snd (activate i u w)) = io.more w"
  by (simp add: activate_eq)

lemma io_more_unit_ops [simp]:
  "io.more (snd (unit_select arg uo u w)) = io.more w"
  "io.more (snd (unit_unselect arg u w)) = io.more w"
  "io.more (snd (unit_hover i u w)) = io.more w"
  "io.more (snd (unit_setContext i u w)) = io.more w"
  "io.more (snd (unit_patch src dest u w)) = io.more w"
  "io.more (snd (unit_clear u w)) = io.more w"
  by (simp_all add: unit_select_parts unit_unselect_parts Let_def select_add_def unselect_others_def
      emit_changed_def split_beta unit_hover_def unit_setContext_def unit_patch_def unit_clear_def
      unselect_remove_def split: id_arg.splits)

lemma unit_type_unit_ops [simp]:
  "unit_type (fst (unit_select arg uo u w)) = unit_type u"
  "unit_type (fst (unit_unselect arg u w)) = unit_type u"
  "unit_type (fst (unit_hover i u w)) = unit_type u"
  "unit_type (fst (unit_setContext i u w)) = unit_type u"
  "unit_type (fst (unit_patch src dest u w)) = unit_type u"
  "unit_type (fst (unit_clear u w)) = unit_type u"
  by (simp_all add: unit_select_parts unit_unselect_parts Let_def patch_fields_def)


subsection \<open>Patch and the contexts view\<close>

lemma patch_slot_back: "x \<noteq> Some dest \<Longrightarrow> patch_slot dest src (patch_slot src dest x) = x"
  by (simp add: patch_slot_def)

text \<open>C10: \<^verbatim>\<open>patch(src, dest)\<close> with a \<^verbatim>\<open>dest\<close> that occurs in no slot of the
  unit moves every occurrence of \<^verbatim>\<open>src\<close> to \<^verbatim>\<open>dest\<close>: afterwards \<^verbatim>\<open>src\<close> is in no
  slot, the selection has \<^verbatim>\<open>dest\<close> in place of \<^verbatim>\<open>src\<close>, and each of
  \<^verbatim>\<open>lastActive\<close>, \<^verbatim>\<open>lastHover\<close> and the context id is \<^verbatim>\<open>dest\<close> exactly when it was
  \<^verbatim>\<open>src\<close>. \<^verbatim>\<open>patch(dest, src)\<close> then gives the unit back, and the two calls send
  nothing but their two patch messages: no select, unselect or activation message.\<close>

theorem patch_round_trip:
  assumes d: "distinct (selection u)" and sd: "src \<noteq> dest" and "dest \<notin> set (selection u)"
    and "lastActive u \<noteq> Some dest" and "lastHover u \<noteq> Some dest" and "context_id u \<noteq> Some dest"
  shows "let u1 = fst (unit_patch src dest u w); w1 = snd (unit_patch src dest u w) in
    src \<notin> set (selection u1) \<and>
    set (selection u1) = (if src \<in> set (selection u) then insert dest (set (selection u) - {src})
                          else set (selection u)) \<and>
    (lastActive u1 = Some dest \<longleftrightarrow> lastActive u = Some src) \<and> lastActive u1 \<noteq> Some src \<and>
    (lastHover u1 = Some dest \<longleftrightarrow> lastHover u = Some src) \<and> lastHover u1 \<noteq> Some src \<and>
    (context_id u1 = Some dest \<longleftrightarrow> context_id u = Some src) \<and> context_id u1 \<noteq> Some src \<and>
    fst (unit_patch dest src u1 w1) = u \<and>
    public_msgs (outbox (snd (unit_patch dest src u1 w1))) =
      public_msgs (outbox w) @ [Patch (unit_type u) src dest, Patch (unit_type u) dest src]"
  using assms src_notin_replace_first [OF d sd]
  by (simp add: patch_fields_def patch_slot_def patch_slot_back replace_first_back set_replace_first_in Let_def)

theorem patch_round_trip_witness:
  "selection (fst (unit_patch ''a'' ''c'' patch_demo \<lparr>last_active_unit = None, outbox = []\<rparr>)) = [''c'', ''b''] \<and>
   (let u1 = fst (unit_patch ''a'' ''c'' patch_demo \<lparr>last_active_unit = None, outbox = []\<rparr>);
        w1 = snd (unit_patch ''a'' ''c'' patch_demo \<lparr>last_active_unit = None, outbox = []\<rparr>)
    in lastActive u1 = Some ''c'' \<and> fst (unit_patch ''c'' ''a'' u1 w1) = patch_demo)"
  using patch_round_trip [of patch_demo "''a''" "''c''" "\<lparr>last_active_unit = None, outbox = []\<rparr>"]
  by (simp add: new_cunit_def patch_fields_def patch_slot_def Let_def)

text \<open>C20: Without that freshness the round trip fails: when \<^verbatim>\<open>lastActive\<close>,
  \<^verbatim>\<open>lastHover\<close> or the context id already holds \<^verbatim>\<open>dest\<close>, \<^verbatim>\<open>patch(src, dest)\<close>
  followed by \<^verbatim>\<open>patch(dest, src)\<close> turns that slot into \<^verbatim>\<open>src\<close>, so the unit does
  not come back.\<close>

theorem patch_not_round_trip:
  assumes "src \<noteq> dest" and "lastActive u = Some dest \<or> lastHover u = Some dest \<or> context_id u = Some dest"
  shows "fst (unit_patch dest src (fst (unit_patch src dest u w)) w') \<noteq> u"
proof
  assume eq: "fst (unit_patch dest src (fst (unit_patch src dest u w)) w') = u"
  have "lastActive (fst (unit_patch dest src (fst (unit_patch src dest u w)) w')) = lastActive u"
    "lastHover (fst (unit_patch dest src (fst (unit_patch src dest u w)) w')) = lastHover u"
    "context_id (fst (unit_patch dest src (fst (unit_patch src dest u w)) w')) = context_id u"
    using eq by simp_all
  with assms show False by (auto simp: patch_fields_def patch_slot_def)
qed

theorem patch_not_round_trip_witness:
  "fst (unit_patch ''b'' ''a'' (fst (unit_patch ''a'' ''b'' ((new_cunit ''node'')\<lparr>lastHover := Some ''b''\<rparr>)
      \<lparr>last_active_unit = None, outbox = []\<rparr>)) \<lparr>last_active_unit = None, outbox = []\<rparr>)
   \<noteq> (new_cunit ''node'')\<lparr>lastHover := Some ''b''\<rparr>"
  using patch_not_round_trip [of "''a''" "''b''" "(new_cunit ''node'')\<lparr>lastHover := Some ''b''\<rparr>"]
  by simp

text \<open>C9: When the context id is selected, \<^verbatim>\<open>contexts\<close> is the selection with the
  context id moved to the front by a swap: it starts with the context id and has the
  same elements, with the same multiplicities, as the selection.\<close>

theorem contexts_front:
  assumes "context_id u = Some c" and "c \<noteq> []" and "c \<in> set (selection u)"
  shows "hd (contexts u) = c \<and> mset (contexts u) = mset (selection u)"
proof -
  obtain i where i: "index_of (selection u) c = Some i"
    using assms(3) by (cases "index_of (selection u) c") auto
  from index_of_Some [OF i] have il: "i < length (selection u)" and ci: "selection u ! i = c" by simp_all
  then have ne: "selection u \<noteq> []" by auto
  have ctx: "contexts u = (selection u)[0 := selection u ! i, i := selection u ! 0]"
    using assms(1,2) i ci ne by (simp add: contexts_def hd_conv_nth)
  have "mset (contexts u) = mset (selection u)"
    unfolding ctx using il ne by (simp add: mset_swap)
  moreover have "hd (contexts u) = c"
    unfolding ctx using il ne ci by (cases "i = 0") (simp_all add: hd_conv_nth)
  ultimately show ?thesis by simp
qed

theorem contexts_front_witness:
  "hd (contexts ((new_cunit ''node'')\<lparr>selection := [''x'', ''y'', ''z''], context_id := Some ''y''\<rparr>)) = ''y''"
  using contexts_front [of "(new_cunit ''node'')\<lparr>selection := [''x'', ''y'', ''z''], context_id := Some ''y''\<rparr>" "''y''"]
  by (simp add: new_cunit_def)

end
