(* ===== verification/Confirmable.thy ===== *)
theory Confirmable
  imports Unit
begin

text \<open>
  \<^verbatim>\<open>ConfirmableSelectionUnit\<close> (\<^verbatim>\<open>src/share/selection.js\<close>, lines 217--274):
  the two-phase transaction of rectangle selection. A unit is Confirmed
  (\<open>confirmed = True\<close>, empty snapshot) or Unconfirmed (carrying the snapshot taken
  when the transaction began). While Unconfirmed, \<open>activate\<close> (the override of
  \<^verbatim>\<open>_activate\<close>, in theory \<open>Unit\<close>) does nothing. \<open>check_confirm\<close> is the
  transition that \<^verbatim>\<open>select\<close> and \<^verbatim>\<open>unselect\<close> run on their \<open>confirm\<close>
  flag before they delegate to the base methods.
\<close>

definition unit_confirm :: "cunit \<Rightarrow> 'a io_scheme \<Rightarrow> cunit \<times> 'a io_scheme" where
  "unit_confirm u w =
    (if \<not> confirmed u
     then activate (last_or_null (selection u)) (u\<lparr>confirmedSnapShot := [], confirmed := True\<rparr>) w
     else (u, w))"

definition check_confirm :: "bool \<Rightarrow> cunit \<Rightarrow> 'a io_scheme \<Rightarrow> cunit \<times> 'a io_scheme" where
  "check_confirm confirm u w =
    (if \<not> confirmed u \<and> confirm then unit_confirm u w
     else if confirmed u \<and> \<not> confirm
     then (u\<lparr>confirmedSnapShot := selection u, confirmed := False\<rparr>, w)
     else (u, w))"

definition c_select ::
  "id_arg \<Rightarrow> bool \<Rightarrow> bool \<Rightarrow> cunit \<Rightarrow> 'a io_scheme \<Rightarrow> cunit \<times> 'a io_scheme" where
  "c_select arg unselectOthers confirm u w =
    (let (u1, w1) = check_confirm confirm u w in unit_select arg unselectOthers u1 w1)"

definition c_unselect :: "id_arg \<Rightarrow> bool \<Rightarrow> cunit \<Rightarrow> 'a io_scheme \<Rightarrow> cunit \<times> 'a io_scheme" where
  "c_unselect arg confirm u w =
    (let (u1, w1) = check_confirm confirm u w in unit_unselect arg u1 w1)"

definition unit_cancel :: "cunit \<Rightarrow> 'a io_scheme \<Rightarrow> cunit \<times> 'a io_scheme" where
  "unit_cancel u w =
    (if \<not> confirmed u
     then (let (u1, w1) = unit_select (Multi (confirmedSnapShot u)) True u w
           in (u1\<lparr>confirmedSnapShot := [], confirmed := True\<rparr>, w1))
     else (u, w))"

text \<open>Activation messages among a list of messages.\<close>

fun is_activation :: "msg \<Rightarrow> bool" where
  "is_activation (Activated _ _) = True"
| "is_activation (Deactivated _ _) = True"
| "is_activation _ = False"

fun is_activated :: "msg \<Rightarrow> bool" where
  "is_activated (Activated _ _) = True"
| "is_activated _ = False"

text \<open>A confirmed unit of type \<^verbatim>\<open>node\<close> with \<^verbatim>\<open>a\<close> and \<^verbatim>\<open>b\<close> selected and
  \<^verbatim>\<open>b\<close> active, and a process with nothing sent yet: the inputs of the examples.\<close>

abbreviation demo_unit :: cunit where
  "demo_unit \<equiv> \<lparr>unit_type = ''node'', selection = [''a'', ''b''], lastActive = Some ''b'',
     lastHover = None, context_id = None, confirmed = True, confirmedSnapShot = []\<rparr>"

abbreviation demo_io :: io where
  "demo_io \<equiv> \<lparr>last_active_unit = None, outbox = []\<rparr>"

subsection \<open>Effect on the unit\<close>

text \<open>The unfolding rules that evaluate a transaction on a concrete unit.\<close>

lemmas unit_eval = c_select_def c_unselect_def check_confirm_def unit_confirm_def unit_cancel_def
  unit_select_def unselect_others_def select_add_def emit_changed_def activate_def
  sunit_activate_def ld_difference_def ld_intersection_def last_or_null_def Let_def

lemma unit_confirm_unit [simp]:
  "fst (unit_confirm u w) =
    (if confirmed u then u
     else u\<lparr>confirmedSnapShot := [], confirmed := True, lastActive := last_or_null (selection u)\<rparr>)"
  by (simp add: unit_confirm_def)

lemma check_confirm_unit [simp]:
  "fst (check_confirm c u w) =
    (if \<not> confirmed u \<and> c
     then u\<lparr>confirmedSnapShot := [], confirmed := True, lastActive := last_or_null (selection u)\<rparr>
     else if confirmed u \<and> \<not> c then u\<lparr>confirmedSnapShot := selection u, confirmed := False\<rparr>
     else u)"
  by (simp add: check_confirm_def)

lemma unit_cancel_unit:
  "distinct (selection u) \<Longrightarrow>
   fst (unit_cancel u w) =
    (if confirmed u then u
     else (let sel1 = filter (\<lambda>x. x \<in> set (confirmedSnapShot u)) (selection u)
           in u\<lparr>selection := sel1 @ ld_difference (confirmedSnapShot u) sel1,
                confirmedSnapShot := [], confirmed := True\<rparr>))"
  by (auto simp: unit_cancel_def split_beta unit_select_unit Let_def)

lemma unit_confirm_inv: "unit_inv u \<Longrightarrow> unit_inv (fst (unit_confirm u w))"
  by (simp add: unit_inv_def)

lemma check_confirm_inv: "unit_inv u \<Longrightarrow> unit_inv (fst (check_confirm c u w))"
  by (cases "lastActive u") (auto simp: unit_inv_def)

lemma unit_cancel_inv:
  assumes "unit_inv u"
  shows "unit_inv (fst (unit_cancel u w))"
proof (cases "confirmed u")
  case False
  let ?s = "confirmedSnapShot u"
  let ?sel1 = "filter (\<lambda>x. x \<in> set ?s) (selection u)"
  from assms False have d: "distinct (selection u)" "distinct ?s"
    and a: "active_in (lastActive u) ?s"
    by (auto simp: unit_inv_def)
  have "set (?sel1 @ ld_difference ?s ?sel1) = set ?s" by auto
  moreover have "distinct (?sel1 @ ld_difference ?s ?sel1)" using d by auto
  ultimately show ?thesis
    using False d a by (cases "lastActive u") (auto simp: unit_cancel_unit unit_inv_def Let_def)
qed (simp add: unit_cancel_def assms)

lemma check_confirm_inv_pair:
  "unit_inv u \<Longrightarrow> check_confirm c u w = (u1, w1) \<Longrightarrow> unit_inv u1"
  by (metis check_confirm_inv fst_conv)

lemma c_select_inv:
  assumes "unit_inv u" and "distinct (as_array arg)" and "as_array arg \<noteq> [] \<or> \<not> uo"
  shows "unit_inv (fst (c_select arg uo c u w))"
proof -
  obtain u1 w1 where cc: "check_confirm c u w = (u1, w1)" by fastforce
  with assms(1) have "unit_inv u1" by (rule check_confirm_inv_pair)
  with assms(2,3) cc show ?thesis by (simp add: c_select_def unit_select_inv)
qed

lemma c_unselect_inv:
  assumes "unit_inv u"
  shows "unit_inv (fst (c_unselect arg c u w))"
proof -
  obtain u1 w1 where cc: "check_confirm c u w = (u1, w1)" by fastforce
  with assms have "unit_inv u1" by (rule check_confirm_inv_pair)
  with cc show ?thesis by (simp add: c_unselect_def unit_unselect_inv)
qed

lemma activation_out_unconfirmed [simp]: "\<not> confirmed u \<Longrightarrow> activation_out u i = []"
  by (simp add: activation_out_def)

lemma unit_select_unconfirmed_out:
  "\<not> confirmed u \<Longrightarrow>
   filter is_activation (public_msgs (outbox (snd (unit_select arg uo u w)))) =
   filter is_activation (public_msgs (outbox w))"
  by (simp add: unit_select_parts Let_def)

lemma unit_select_unconfirmed_lau:
  "\<not> confirmed u \<Longrightarrow> last_active_unit (snd (unit_select arg uo u w)) = last_active_unit w"
  by (simp add: last_active_unit_unit_select)

lemma c_select_unconfirmed:
  assumes "confirmed u"
  shows "distinct (selection u) \<Longrightarrow> fst (c_select arg uo False u w) =
           (let ids = as_array arg;
                sel1 = (if uo then filter (\<lambda>x. x \<in> set ids) (selection u) else selection u)
            in u\<lparr>selection := (if ids = [] then sel1 else sel1 @ ld_difference ids sel1),
                 confirmedSnapShot := selection u, confirmed := False\<rparr>)"
    and "filter is_activation (public_msgs (outbox (snd (c_select arg uo False u w)))) =
         filter is_activation (public_msgs (outbox w))"
    and "last_active_unit (snd (c_select arg uo False u w)) = last_active_unit w"
  using assms
  by (simp_all add: c_select_def check_confirm_def unit_select_unconfirmed_out
      unit_select_unconfirmed_lau unit_select_unit Let_def)

lemma io_more_confirmable [simp]:
  "io.more (snd (unit_confirm u w)) = io.more w"
  "io.more (snd (check_confirm c u w)) = io.more w"
  "io.more (snd (c_select arg uo c u w)) = io.more w"
  "io.more (snd (c_unselect arg c u w)) = io.more w"
  "io.more (snd (unit_cancel u w)) = io.more w"
  by (simp_all add: unit_confirm_def check_confirm_def c_select_def c_unselect_def unit_cancel_def
      split_beta)

lemma unit_type_confirmable [simp]:
  "unit_type (fst (unit_confirm u w)) = unit_type u"
  "unit_type (fst (check_confirm c u w)) = unit_type u"
  "unit_type (fst (c_select arg uo c u w)) = unit_type u"
  "unit_type (fst (c_unselect arg c u w)) = unit_type u"
  "unit_type (fst (unit_cancel u w)) = unit_type u"
  by (simp_all add: c_select_def c_unselect_def unit_cancel_def split_beta)

lemma filter_activated_activation:
  "filter is_activated (filter is_activation xs) = filter is_activated xs"
proof (induction xs)
  case (Cons m xs)
  then show ?case by (cases m) simp_all
qed simp

lemma unit_confirm_io [simp]:
  "outbox (snd (unit_confirm u w)) =
     outbox w @ (if confirmed u then []
                 else activation_out (u\<lparr>confirmedSnapShot := [], confirmed := True\<rparr>)
                        (last_or_null (selection u)))"
  by (simp add: unit_confirm_def)

lemma set_reconcile:
  "set (filter (\<lambda>x. x \<in> set s) xs @ ld_difference s (filter (\<lambda>x. x \<in> set s) xs)) = set s"
  by auto

lemma distinct_reconcile:
  "distinct xs \<Longrightarrow> distinct s \<Longrightarrow>
   distinct (filter (\<lambda>x. x \<in> set s) xs @ ld_difference s (filter (\<lambda>x. x \<in> set s) xs))"
  by auto

text \<open>C1: Cancel is a round trip on membership. From a confirmed unit that
  satisfies the invariant, a provisional \<^verbatim>\<open>select(ids, unselectOthers, false)\<close>
  followed by \<^verbatim>\<open>cancel()\<close> brings back the set of selected ids without duplicates,
  leaves \<^verbatim>\<open>lastActive\<close> and the global active unit as they were, confirms the
  unit, and sends no activated or deactivated message.\<close>

theorem cancel_round_trip:
  assumes inv: "unit_inv u" and conf: "confirmed u" and dist: "distinct (as_array arg)"
    and sel: "c_select arg uo False u w = (u1, w1)" and can: "unit_cancel u1 w1 = (u2, w2)"
  shows "set (selection u2) = set (selection u) \<and> distinct (selection u2) \<and>
         lastActive u2 = lastActive u \<and> confirmed u2 \<and> confirmedSnapShot u2 = [] \<and>
         last_active_unit w2 = last_active_unit w \<and>
         filter is_activation (public_msgs (outbox w2)) = filter is_activation (public_msgs (outbox w))"
proof -
  let ?ids = "as_array arg"
  define S1 where "S1 = (let sel1 = (if uo then filter (\<lambda>x. x \<in> set ?ids) (selection u) else selection u)
                         in if ?ids = [] then sel1 else sel1 @ ld_difference ?ids sel1)"
  from inv have d0: "distinct (selection u)" by (simp add: unit_inv_def)
  from c_select_unconfirmed(1) [OF conf d0, of arg uo w] sel
  have u1: "u1 = u\<lparr>selection := S1, confirmedSnapShot := selection u, confirmed := False\<rparr>"
    by (simp add: S1_def Let_def)
  have dS1: "distinct S1" using d0 dist by (auto simp: S1_def Let_def)
  from c_select_unconfirmed(2,3) [OF conf, of arg uo w] sel
  have w1: "filter is_activation (public_msgs (outbox w1)) = filter is_activation (public_msgs (outbox w))"
    "last_active_unit w1 = last_active_unit w" by simp_all
  from can u1 have w2: "w2 = snd (unit_select (Multi (selection u)) True u1 w1)"
    by (simp add: unit_cancel_def split_beta)
  from unit_cancel_unit [of u1 w1] can u1 dS1
  have u2: "u2 = u1\<lparr>selection := filter (\<lambda>x. x \<in> set (selection u)) S1
                   @ ld_difference (selection u) (filter (\<lambda>x. x \<in> set (selection u)) S1),
                   confirmedSnapShot := [], confirmed := True\<rparr>"
    by (simp add: Let_def)
  show ?thesis
    using u1 u2 w1 w2 d0 dS1 set_reconcile distinct_reconcile
    by (simp add: unit_select_unconfirmed_out unit_select_unconfirmed_lau)
qed

text \<open>C2: Confirm commits the provisional selection. After
  \<^verbatim>\<open>select(ids, true, false)\<close> with distinct non-empty ids on a confirmed unit and
  then \<^verbatim>\<open>confirm()\<close>, the selection holds exactly the ids, the unit is confirmed,
  the last selected id is active, and exactly one activated message is sent if and
  only if the active id changed.\<close>

theorem confirm_commit:
  assumes inv: "unit_inv u" and conf: "confirmed u" and dist: "distinct (as_array arg)"
    and ne: "as_array arg \<noteq> []"
    and sel: "c_select arg True False u w = (u1, w1)" and com: "unit_confirm u1 w1 = (u2, w2)"
  shows "set (selection u2) = set (as_array arg) \<and> distinct (selection u2) \<and> confirmed u2 \<and>
         lastActive u2 = Some (last (selection u2)) \<and>
         length (filter is_activated (public_msgs (outbox w2))) =
           length (filter is_activated (public_msgs (outbox w))) +
           (if lastActive u2 \<noteq> lastActive u then 1 else 0)"
proof -
  let ?ids = "as_array arg"
  let ?sel1 = "filter (\<lambda>x. x \<in> set ?ids) (selection u)"
  let ?S1 = "?sel1 @ ld_difference ?ids ?sel1"
  from inv have d0: "distinct (selection u)" by (simp add: unit_inv_def)
  from c_select_unconfirmed(1) [OF conf d0, of arg True w] sel ne
  have u1: "u1 = u\<lparr>selection := ?S1, confirmedSnapShot := selection u, confirmed := False\<rparr>"
    by (simp add: Let_def)
  from c_select_unconfirmed(2) [OF conf, of arg True w] sel
  have w1: "filter is_activation (public_msgs (outbox w1)) = filter is_activation (public_msgs (outbox w))"
    by simp
  then have w1': "filter is_activated (public_msgs (outbox w1)) = filter is_activated (public_msgs (outbox w))"
    by (metis filter_activated_activation)
  have setS1: "set ?S1 = set ?ids" by auto
  with ne have S1ne: "?S1 \<noteq> []" by (metis set_empty)
  have dS1: "distinct ?S1" using d0 dist by auto
  from com have u2e: "u2 = fst (unit_confirm u1 w1)" and w2e: "w2 = snd (unit_confirm u1 w1)"
    by (metis fst_conv, metis snd_conv)
  have u2: "u2 = u1\<lparr>confirmedSnapShot := [], confirmed := True, lastActive := Some (last ?S1)\<rparr>"
    using u2e u1 S1ne by (simp add: last_or_null_def)
  have w2: "outbox w2 = outbox w1 @ activation_out
      (u1\<lparr>confirmedSnapShot := [], confirmed := True\<rparr>) (Some (last ?S1))"
    using w2e u1 S1ne by (simp add: last_or_null_def)
  show ?thesis
    using u1 u2 w1' w2 setS1 dS1 by (auto simp: activation_out_def)
qed

theorem cancel_round_trip_witness:
  "set (selection (fst (unit_cancel (fst (c_select (Multi [''c'']) True False demo_unit demo_io))
                                    (snd (c_select (Multi [''c'']) True False demo_unit demo_io)))))
   = {''a'', ''b''}"
  using cancel_round_trip [where u = demo_unit and arg = "Multi [''c'']" and uo = True and w = demo_io,
      OF _ _ _ surjective_pairing surjective_pairing]
  by (simp add: unit_inv_def unit_eval)

text \<open>C15: Cancel restores the members of the selection, not their order. After a
  provisional \<^verbatim>\<open>select(ids, unselectOthers, false)\<close> on a confirmed unit, \<^verbatim>\<open>cancel()\<close>
  leaves the snapshot ids that the provisional call kept in front, in their old order,
  followed by the others: the original order only comes back when the call did not
  unselect the others.\<close>

theorem cancel_order:
  assumes inv: "unit_inv u" and conf: "confirmed u" and dist: "distinct (as_array arg)"
    and sel: "c_select arg uo False u w = (u1, w1)"
  shows "selection (fst (unit_cancel u1 w1)) =
           (if uo then filter (\<lambda>x. x \<in> set (as_array arg)) (selection u) @
                       filter (\<lambda>x. x \<notin> set (as_array arg)) (selection u)
            else selection u)"
proof -
  let ?ids = "as_array arg"
  let ?sel1 = "if uo then filter (\<lambda>x. x \<in> set ?ids) (selection u) else selection u"
  let ?S1 = "if ?ids = [] then ?sel1 else ?sel1 @ ld_difference ?ids ?sel1"
  from inv have d0: "distinct (selection u)" by (simp add: unit_inv_def)
  from c_select_unconfirmed(1) [OF conf d0, of arg uo w] sel
  have u1: "u1 = u\<lparr>selection := ?S1, confirmedSnapShot := selection u, confirmed := False\<rparr>"
    by (simp add: Let_def)
  have dS1: "distinct ?S1" using d0 dist by auto
  have "selection (fst (unit_cancel u1 w1)) =
          filter (\<lambda>x. x \<in> set (selection u)) ?S1 @
          ld_difference (selection u) (filter (\<lambda>x. x \<in> set (selection u)) ?S1)"
    using unit_cancel_unit [of u1 w1] u1 dS1 by (simp add: Let_def)
  also have "filter (\<lambda>x. x \<in> set (selection u)) ?S1 = ?sel1"
    using d0 by (auto simp: ld_difference_def filter_empty_conv filter_and_member intro: filter_True)
  finally show ?thesis
    using d0 by (auto simp: ld_difference_def filter_filter intro!: filter_cong)
qed


theorem cancel_order_witness:
  "selection (fst (unit_cancel (fst (c_select (Multi [''b'']) True False demo_unit demo_io))
                               (snd (c_select (Multi [''b'']) True False demo_unit demo_io))))
   = [''b'', ''a'']"
  using cancel_order [where u = demo_unit and arg = "Multi [''b'']" and uo = True and w = demo_io,
      OF _ _ _ surjective_pairing]
  by (simp add: unit_inv_def)

theorem confirm_commit_witness:
  "lastActive (fst (unit_confirm (fst (c_select (Multi [''c'']) True False demo_unit demo_io))
                                 (snd (c_select (Multi [''c'']) True False demo_unit demo_io))))
   = Some ''c''"
  using confirm_commit [where u = demo_unit and arg = "Multi [''c'']" and w = demo_io,
      OF _ _ _ _ surjective_pairing surjective_pairing]
  by (simp add: unit_inv_def unit_eval)

text \<open>C16: The commit activates the last id of the selection, in the selection's old
  order, not the last id passed: when every id passed to a provisional
  \<^verbatim>\<open>select(ids, true, false)\<close> is already selected, \<^verbatim>\<open>confirm()\<close> activates the last
  of them in the unit's order, where a confirmed \<^verbatim>\<open>select(ids)\<close> activates the last
  element of \<^verbatim>\<open>ids\<close>.\<close>

theorem commit_activates_old_order:
  assumes inv: "unit_inv u" and conf: "confirmed u" and ne: "as_array arg \<noteq> []"
    and sub: "set (as_array arg) \<subseteq> set (selection u)"
    and sel: "c_select arg True False u w = (u1, w1)"
  shows "lastActive (fst (unit_confirm u1 w1)) = Some (last (filter (\<lambda>x. x \<in> set (as_array arg)) (selection u))) \<and>
         lastActive (fst (c_select arg True True u w)) = Some (last (as_array arg))"
proof -
  let ?ids = "as_array arg"
  let ?sel1 = "filter (\<lambda>x. x \<in> set ?ids) (selection u)"
  from inv have d0: "distinct (selection u)" by (simp add: unit_inv_def)
  have nil: "ld_difference ?ids ?sel1 = []" using sub by (auto simp: ld_difference_Nil_iff)
  have s1: "?sel1 \<noteq> []" using ne sub by (auto simp: filter_empty_conv) (metis last_in_set subsetD)
  from c_select_unconfirmed(1) [OF conf d0, of arg True w] sel ne nil
  have u1: "u1 = u\<lparr>selection := ?sel1, confirmedSnapShot := selection u, confirmed := False\<rparr>"
    by (simp add: Let_def)
  have "lastActive (fst (unit_confirm u1 w1)) = Some (last ?sel1)"
    using u1 s1 by (simp add: last_or_null_def)
  moreover have "lastActive (fst (c_select arg True True u w)) = Some (last ?ids)"
    using conf d0 ne by (simp add: c_select_def check_confirm_def unit_select_unit Let_def)
  ultimately show ?thesis by simp
qed


theorem commit_activates_old_order_witness:
  "lastActive (fst (unit_confirm (fst (c_select (Multi [''b'', ''a'']) True False demo_unit demo_io))
                                 (snd (c_select (Multi [''b'', ''a'']) True False demo_unit demo_io))))
     = Some ''b'' \<and>
   lastActive (fst (c_select (Multi [''b'', ''a'']) True True demo_unit demo_io)) = Some ''a''"
  using commit_activates_old_order [where u = demo_unit and arg = "Multi [''b'', ''a'']" and w = demo_io,
      OF _ _ _ _ surjective_pairing]
  by (simp add: unit_inv_def)


text \<open>C18: An id passed twice to \<^verbatim>\<open>select\<close> and not yet selected is selected twice:
  \<^verbatim>\<open>_.difference\<close> keeps the duplicate, so the unit leaves the invariant.\<close>

theorem select_duplicate_ids:
  assumes "unit_inv u" and "x \<notin> set (selection u)"
  shows "count (mset (selection (fst (c_select (Multi [x, x]) uo c u w)))) x = 2 \<and>
         \<not> unit_inv (fst (c_select (Multi [x, x]) uo c u w))"
proof -
  let ?r = "check_confirm c u w"
  have d: "distinct (selection (fst ?r))" and s: "selection (fst ?r) = selection u"
    using assms(1) by (simp_all add: unit_inv_def)
  let ?sel1 = "if uo then filter (\<lambda>y. y \<in> set [x, x]) (selection u) else selection u"
  have "selection (fst (c_select (Multi [x, x]) uo c u w)) = ?sel1 @ [x, x]"
    using unit_select_unit [OF d, of "Multi [x, x]" uo "snd ?r"] s assms(2)
    by (simp add: c_select_def split_beta Let_def ld_difference_def)
  moreover have "x \<notin> set ?sel1" using assms(2) by auto
  ultimately show ?thesis by (simp add: unit_inv_def count_eq_zero_iff)
qed


theorem select_duplicate_ids_witness:
  "count (mset (selection (fst (c_select (Multi [''c'', ''c'']) True True demo_unit demo_io)))) ''c'' = 2"
  using select_duplicate_ids [of demo_unit "''c''" True True demo_io]
  by (simp add: unit_inv_def)


text \<open>C14: \<^verbatim>\<open>patch\<close> of the active id during a provisional selection breaks the
  invariant. \<^verbatim>\<open>patch\<close> rewrites the selection and \<^verbatim>\<open>lastActive\<close> but not the
  snapshot, so a later \<^verbatim>\<open>cancel()\<close> restores the old members while the active id is
  the new one, which is not selected.\<close>

theorem patch_mid_transaction_breaks_inv:
  assumes inv: "unit_inv u" and conf: "confirmed u" and act: "lastActive u = Some a"
    and dist: "distinct (as_array arg)" and fresh: "c \<notin> set (selection u)" "c \<notin> set (as_array arg)"
    and sel: "c_select arg uo False u w = (u1, w1)"
  shows "unit_inv u1 \<and>
         lastActive (fst (unit_cancel (fst (unit_patch a c u1 w1)) (snd (unit_patch a c u1 w1)))) = Some c \<and>
         set (selection (fst (unit_cancel (fst (unit_patch a c u1 w1)) (snd (unit_patch a c u1 w1))))) =
           set (selection u) \<and>
         \<not> unit_inv (fst (unit_cancel (fst (unit_patch a c u1 w1)) (snd (unit_patch a c u1 w1))))"
proof -
  let ?ids = "as_array arg"
  let ?sel1 = "if uo then filter (\<lambda>x. x \<in> set ?ids) (selection u) else selection u"
  let ?S1 = "if ?ids = [] then ?sel1 else ?sel1 @ ld_difference ?ids ?sel1"
  from inv have d0: "distinct (selection u)" by (simp add: unit_inv_def)
  from c_select_unconfirmed(1) [OF conf d0, of arg uo w] sel
  have u1: "u1 = u\<lparr>selection := ?S1, confirmedSnapShot := selection u, confirmed := False\<rparr>"
    by (simp add: Let_def)
  have dS1: "distinct ?S1" using d0 dist by auto
  have i1: "unit_inv u1" using inv conf dS1 u1 by (simp add: unit_inv_def)
  let ?u2 = "fst (unit_patch a c u1 w1)"
  have cS1: "c \<notin> set ?S1" using fresh by auto
  have u2: "?u2 = u1\<lparr>selection := replace_first a c ?S1, lastActive := Some c,
                     lastHover := patch_slot a c (lastHover u), context_id := patch_slot a c (context_id u)\<rparr>"
    using u1 act by (simp add: patch_fields_def patch_slot_def)
  have d2: "distinct (replace_first a c ?S1)" using dS1 cS1 by (rule distinct_replace_first)
  let ?S2 = "replace_first a c ?S1"
  have u3: "selection (fst (unit_cancel ?u2 (snd (unit_patch a c u1 w1)))) =
              filter (\<lambda>x. x \<in> set (selection u)) ?S2 @ ld_difference (selection u) (filter (\<lambda>x. x \<in> set (selection u)) ?S2)"
           "lastActive (fst (unit_cancel ?u2 (snd (unit_patch a c u1 w1)))) = Some c"
           "confirmed (fst (unit_cancel ?u2 (snd (unit_patch a c u1 w1))))"
    using unit_cancel_unit [of ?u2 "snd (unit_patch a c u1 w1)"] u2 u1 d2 by (simp_all add: Let_def)
  have "set (selection (fst (unit_cancel ?u2 (snd (unit_patch a c u1 w1))))) = set (selection u)"
    unfolding u3(1) by (rule set_reconcile)
  with u3(2,3) fresh i1 show ?thesis by (simp add: unit_inv_def)
qed


theorem patch_mid_transaction_breaks_inv_witness:
  "lastActive (fst (unit_cancel (fst (unit_patch ''b'' ''z'' (fst (c_select (Multi [''a'']) True False demo_unit demo_io))
        (snd (c_select (Multi [''a'']) True False demo_unit demo_io))))
      (snd (unit_patch ''b'' ''z'' (fst (c_select (Multi [''a'']) True False demo_unit demo_io))
        (snd (c_select (Multi [''a'']) True False demo_unit demo_io)))))) = Some ''z''"
  using patch_mid_transaction_breaks_inv [where u = demo_unit and a = "''b''" and c = "''z''"
      and arg = "Multi [''a'']" and uo = True and w = demo_io, OF _ _ _ _ _ _ surjective_pairing]
  by (simp add: unit_inv_def)

end
