(* ===== verification/Registry.thy ===== *)
theory Registry
  imports Confirmable
begin

text \<open>
  The \<^verbatim>\<open>Selection\<close> facade of \<^verbatim>\<open>src/share/selection.js\<close> (lines 276--556,
  without \<^verbatim>\<open>filter\<close>, which is theory \<open>SelFilter\<close>). The process state
  \<open>world\<close> extends \<open>io\<close> (the outbox and \<^verbatim>\<open>_lastActiveUnit\<close>) by the unit
  table \<^verbatim>\<open>_units\<close>, an association list in the insertion order in which
  \<^verbatim>\<open>for (p in _units)\<close> visits it, by the flag \<^verbatim>\<open>Editor.isCoreLevel\<close>, and
  by the log that \<^verbatim>\<open>Editor.error\<close> and \<^verbatim>\<open>Editor.warn\<close> write. A facade call that
  the code rejects with a log line and an early \<^verbatim>\<open>return\<close> is the value
  \<open>Inl\<close> of an error; \<open>facade_apply\<close> absorbs it into the log as the process does.
\<close>

datatype sel_error = NotCoreLevel | UnknownType sel_type | BadIdArgument

record world = io +
  units :: "(sel_type \<times> cunit) list"
  core_level :: bool
  log :: "sel_error list"

text \<open>The JavaScript value passed as the id argument of \<^verbatim>\<open>select\<close> and
  \<^verbatim>\<open>unselect\<close>: a string, an array, or anything else.\<close>

datatype js_id = JsString obj_id | JsArray "obj_id list" | JsOther

fun id_arg_of :: "js_id \<Rightarrow> id_arg option" where
  "id_arg_of (JsString s) = Some (Single s)"
| "id_arg_of (JsArray xs) = Some (Multi xs)"
| "id_arg_of JsOther = None"

text \<open>\<^verbatim>\<open>x = x !== undefined ? x : true\<close>, with \<open>None\<close> for an omitted argument.\<close>

definition default_true :: "bool option \<Rightarrow> bool" where
  "default_true x = (case x of None \<Rightarrow> True | Some b \<Rightarrow> b)"

definition put_unit :: "sel_type \<Rightarrow> cunit \<Rightarrow> world \<Rightarrow> world" where
  "put_unit t u W = W\<lparr>units := AList.update t u (units W)\<rparr>"

definition sel_register :: "sel_type \<Rightarrow> world \<Rightarrow> sel_error + world" where
  "sel_register t W =
    (if \<not> core_level W then Inl NotCoreLevel
     else if map_of (units W) t \<noteq> None then Inr W
     else Inr (W\<lparr>units := units W @ [(t, new_cunit t)]\<rparr>))"

text \<open>\<^verbatim>\<open>for (var p in _units) _units[p].m()\<close> for a unit method \<open>m\<close>: the
  loops of \<^verbatim>\<open>confirm\<close> and \<^verbatim>\<open>cancel\<close>, in the table's insertion order.\<close>

fun each_unit ::
  "(cunit \<Rightarrow> world \<Rightarrow> cunit \<times> world) \<Rightarrow> (sel_type \<times> cunit) list \<Rightarrow> world
     \<Rightarrow> (sel_type \<times> cunit) list \<times> world" where
  "each_unit m [] W = ([], W)"
| "each_unit m ((t, u) # us) W =
    (let (u1, W1) = m u W; (us1, W2) = each_unit m us W1 in ((t, u1) # us1, W2))"

definition sel_confirm :: "world \<Rightarrow> world" where
  "sel_confirm W = (let (us, W1) = each_unit unit_confirm (units W) W in W1\<lparr>units := us\<rparr>)"

definition sel_cancel :: "world \<Rightarrow> world" where
  "sel_cancel W = (let (us, W1) = each_unit unit_cancel (units W) W in W1\<lparr>units := us\<rparr>)"

definition sel_select ::
  "sel_type \<Rightarrow> js_id \<Rightarrow> bool option \<Rightarrow> bool option \<Rightarrow> world \<Rightarrow> sel_error + world" where
  "sel_select t v uo c W =
    (case map_of (units W) t of
       None \<Rightarrow> Inl (UnknownType t)
     | Some u \<Rightarrow>
         (case id_arg_of v of
            None \<Rightarrow> Inl BadIdArgument
          | Some arg \<Rightarrow>
              (let laB = lastActive u;
                   lauB = last_active_unit W;
                   (u1, W1) = c_select arg (default_true uo) (default_true c) u W;
                   W2 = put_unit t u1 W1
               in if confirmed u1
                  then (let W3 = W2\<lparr>last_active_unit := Some t\<rparr>
                        in if lauB \<noteq> Some t \<or> laB \<noteq> lastActive u1
                           then Inr (emit (Activated t (lastActive u1)) W3)
                           else Inr W3)
                  else Inr W2)))"

definition sel_unselect :: "sel_type \<Rightarrow> js_id \<Rightarrow> bool option \<Rightarrow> world \<Rightarrow> sel_error + world" where
  "sel_unselect t v c W =
    (case map_of (units W) t of
       None \<Rightarrow> Inl (UnknownType t)
     | Some u \<Rightarrow>
         (case id_arg_of v of
            None \<Rightarrow> Inl BadIdArgument
          | Some arg \<Rightarrow>
              (let (u1, W1) = c_unselect arg (default_true c) u W in Inr (put_unit t u1 W1))))"

text \<open>The facade methods that look the unit up and delegate to one unit method.\<close>

definition with_unit ::
  "sel_type \<Rightarrow> (cunit \<Rightarrow> world \<Rightarrow> cunit \<times> world) \<Rightarrow> world \<Rightarrow> sel_error + world" where
  "with_unit t f W =
    (case map_of (units W) t of
       None \<Rightarrow> Inl (UnknownType t)
     | Some u \<Rightarrow> (let (u1, W1) = f u W in Inr (put_unit t u1 W1)))"

definition sel_hover :: "sel_type \<Rightarrow> obj_id option \<Rightarrow> world \<Rightarrow> sel_error + world" where
  "sel_hover t i = with_unit t (unit_hover i)"

definition sel_setContext :: "sel_type \<Rightarrow> obj_id option \<Rightarrow> world \<Rightarrow> sel_error + world" where
  "sel_setContext t i = with_unit t (unit_setContext i)"

definition sel_patch :: "sel_type \<Rightarrow> obj_id \<Rightarrow> obj_id \<Rightarrow> world \<Rightarrow> sel_error + world" where
  "sel_patch t src dest = with_unit t (unit_patch src dest)"

definition clear_then_confirm :: "cunit \<Rightarrow> world \<Rightarrow> cunit \<times> world" where
  "clear_then_confirm u W = (let (u1, W1) = unit_clear u W in unit_confirm u1 W1)"

definition sel_clear :: "sel_type \<Rightarrow> world \<Rightarrow> sel_error + world" where
  "sel_clear t = with_unit t clear_then_confirm"

subsection \<open>Queries\<close>

definition query_unit :: "sel_type \<Rightarrow> (cunit \<Rightarrow> 'r) \<Rightarrow> world \<Rightarrow> sel_error + 'r" where
  "query_unit t f W = (case map_of (units W) t of None \<Rightarrow> Inl (UnknownType t) | Some u \<Rightarrow> Inr (f u))"

definition sel_hovering :: "sel_type \<Rightarrow> world \<Rightarrow> sel_error + obj_id option" where
  "sel_hovering t = query_unit t lastHover"

definition sel_contexts :: "sel_type \<Rightarrow> world \<Rightarrow> sel_error + obj_id list" where
  "sel_contexts t = query_unit t contexts"

definition sel_curActivate :: "sel_type \<Rightarrow> world \<Rightarrow> sel_error + obj_id option" where
  "sel_curActivate t = query_unit t lastActive"

definition sel_curSelection :: "sel_type \<Rightarrow> world \<Rightarrow> sel_error + obj_id list" where
  "sel_curSelection t = query_unit t selection"

definition sel_curGlobalActivate :: "world \<Rightarrow> (sel_type \<times> obj_id option) option" where
  "sel_curGlobalActivate W =
    (case last_active_unit W of
       None \<Rightarrow> None
     | Some t \<Rightarrow> map_option (\<lambda>u. (t, lastActive u)) (map_of (units W) t))"

subsection \<open>Facade calls as a step function\<close>

datatype facade_op =
    Register sel_type
  | Select sel_type js_id "bool option" "bool option"
  | Unselect sel_type js_id "bool option"
  | Hover sel_type "obj_id option"
  | SetContext sel_type "obj_id option"
  | PatchIds sel_type obj_id obj_id
  | Clear sel_type
  | ConfirmAll
  | CancelAll

fun facade_step :: "facade_op \<Rightarrow> world \<Rightarrow> sel_error + world" where
  "facade_step (Register t) W = sel_register t W"
| "facade_step (Select t v uo c) W = sel_select t v uo c W"
| "facade_step (Unselect t v c) W = sel_unselect t v c W"
| "facade_step (Hover t i) W = sel_hover t i W"
| "facade_step (SetContext t i) W = sel_setContext t i W"
| "facade_step (PatchIds t src dest) W = sel_patch t src dest W"
| "facade_step (Clear t) W = sel_clear t W"
| "facade_step ConfirmAll W = Inr (sel_confirm W)"
| "facade_step CancelAll W = Inr (sel_cancel W)"

definition facade_apply :: "facade_op \<Rightarrow> world \<Rightarrow> world" where
  "facade_apply op W = (case facade_step op W of Inl e \<Rightarrow> W\<lparr>log := log W @ [e]\<rparr> | Inr W1 \<Rightarrow> W1)"

fun facade_run :: "facade_op list \<Rightarrow> world \<Rightarrow> world" where
  "facade_run [] W = W"
| "facade_run (op # ops) W = facade_run ops (facade_apply op W)"


subsection \<open>The registry invariant\<close>

text \<open>
  Every registered unit is stored under its own type and satisfies the unit
  invariant, no type is registered twice, and the global active pointer names a
  registered type. The inputs under which the facade keeps it: an id array passed to
  \<^verbatim>\<open>select\<close> has no duplicate and is not empty when others are unselected, and
  \<^verbatim>\<open>patch\<close> renames to an id that is not selected, outside a transaction on the
  active id.
\<close>

definition world_inv :: "world \<Rightarrow> bool" where
  "world_inv W \<longleftrightarrow> distinct (map fst (units W)) \<and>
     list_all (\<lambda>(t, u). unit_type u = t \<and> unit_inv u) (units W) \<and>
     set_option (last_active_unit W) \<subseteq> set (map fst (units W))"

fun op_ok :: "world \<Rightarrow> facade_op \<Rightarrow> bool" where
  "op_ok W (Select t (JsArray xs) uo c) = (distinct xs \<and> (xs \<noteq> [] \<or> \<not> default_true uo))"
| "op_ok W (PatchIds t src dest) =
    (case map_of (units W) t of
       None \<Rightarrow> True
     | Some u \<Rightarrow> dest \<notin> set (selection u) \<and> (confirmed u \<or> lastActive u \<noteq> Some src))"
| "op_ok W op = True"

fun ops_ok :: "world \<Rightarrow> facade_op list \<Rightarrow> bool" where
  "ops_ok W [] = True"
| "ops_ok W (op # ops) = (op_ok W op \<and> ops_ok (facade_apply op W) ops)"

text \<open>A process at start: no unit registered, nothing sent, no global active unit.\<close>

definition init_world :: "bool \<Rightarrow> world" where
  "init_world core = \<lparr>last_active_unit = None, outbox = [], units = [], core_level = core, log = []\<rparr>"

text \<open>The worlds a process reaches by facade calls on well-formed inputs.\<close>

inductive reachable :: "world \<Rightarrow> bool" where
  init: "reachable (init_world core)"
| step: "reachable W \<Longrightarrow> op_ok W op \<Longrightarrow> reachable (facade_apply op W)"

text \<open>The unit type a facade call addresses, for the calls that look a unit up.\<close>

fun op_type :: "facade_op \<Rightarrow> sel_type option" where
  "op_type (Select t v uo c) = Some t"
| "op_type (Unselect t v c) = Some t"
| "op_type (Hover t i) = Some t"
| "op_type (SetContext t i) = Some t"
| "op_type (PatchIds t src dest) = Some t"
| "op_type (Clear t) = Some t"
| "op_type op = None"


text \<open>The calls of the examples: register type \<^verbatim>\<open>node\<close>, then select
  \<^verbatim>\<open>a\<close> and \<^verbatim>\<open>b\<close> in it with the default flags.\<close>

abbreviation demo_ops :: "facade_op list" where
  "demo_ops \<equiv> [Register ''node'', Select ''node'' (JsArray [''a'', ''b'']) None None]"

subsection \<open>Every facade call keeps the registry invariant\<close>

lemma more_eq_world:
  assumes "io.more (w1::world) = io.more w2"
  shows "units w1 = units w2" "core_level w1 = core_level w2" "log w1 = log w2"
  using assms by (cases w1, cases w2, simp)+

lemma lau_unit_ops:
  "last_active_unit (snd (activate i u w)) \<in> {last_active_unit w, Some (unit_type u)}"
  "last_active_unit (snd (unit_select arg uo u w)) \<in> {last_active_unit w, Some (unit_type u)}"
  "last_active_unit (snd (unit_unselect arg u w)) \<in> {last_active_unit w, Some (unit_type u)}"
  "last_active_unit (snd (unit_hover i u w)) \<in> {last_active_unit w, Some (unit_type u)}"
  "last_active_unit (snd (unit_setContext i u w)) \<in> {last_active_unit w, Some (unit_type u)}"
  "last_active_unit (snd (unit_patch src dest u w)) \<in> {last_active_unit w, Some (unit_type u)}"
  "last_active_unit (snd (unit_clear u w)) \<in> {last_active_unit w, Some (unit_type u)}"
  by (simp_all add: last_active_unit_unit_select unit_unselect_parts Let_def)

lemma lau_confirm_check:
  "last_active_unit (snd (unit_confirm u w)) \<in> {last_active_unit w, Some (unit_type u)}"
  "last_active_unit (snd (check_confirm c u w)) \<in> {last_active_unit w, Some (unit_type u)}"
  by (simp_all add: unit_confirm_def check_confirm_def)

lemma lau_compose:
  assumes "last_active_unit w1 \<in> {last_active_unit w, Some t}"
    and "last_active_unit w2 \<in> {last_active_unit w1, Some t}"
  shows "last_active_unit w2 \<in> {last_active_unit w, Some t}"
  using assms by auto

lemma lau_confirmable:
  "last_active_unit (snd (c_select arg uo c u w)) \<in> {last_active_unit w, Some (unit_type u)}"
  "last_active_unit (snd (c_unselect arg c u w)) \<in> {last_active_unit w, Some (unit_type u)}"
  "last_active_unit (snd (unit_cancel u w)) \<in> {last_active_unit w, Some (unit_type u)}"
proof -
  let ?u1 = "fst (check_confirm c u w)" and ?w1 = "snd (check_confirm c u w)"
  have t: "unit_type ?u1 = unit_type u" by simp
  show "last_active_unit (snd (c_select arg uo c u w)) \<in> {last_active_unit w, Some (unit_type u)}"
    using lau_compose [OF lau_confirm_check(2) lau_unit_ops(2) [of arg uo ?u1 ?w1, unfolded t]]
    by (simp add: c_select_def split_beta)
  show "last_active_unit (snd (c_unselect arg c u w)) \<in> {last_active_unit w, Some (unit_type u)}"
    using lau_compose [OF lau_confirm_check(2) lau_unit_ops(3) [of arg ?u1 ?w1, unfolded t]]
    by (simp add: c_unselect_def split_beta)
  show "last_active_unit (snd (unit_cancel u w)) \<in> {last_active_unit w, Some (unit_type u)}"
    using lau_unit_ops(2) [of "Multi (confirmedSnapShot u)" True u w]
    by (simp add: unit_cancel_def split_beta)
qed


lemma list_all_update:
  "list_all P al \<Longrightarrow> P (k, v) \<Longrightarrow> list_all P (AList.update k v al)"
  by (induction al) auto

lemma world_inv_lookup:
  "world_inv W \<Longrightarrow> map_of (units W) t = Some u \<Longrightarrow> unit_type u = t \<and> unit_inv u"
  by (auto simp: world_inv_def list_all_iff dest!: map_of_SomeD)

lemma world_inv_put_unit:
  assumes inv: "world_inv W" and reg: "map_of (units W) t \<noteq> None"
    and u: "unit_type u' = t" "unit_inv u'"
    and more: "io.more W1 = io.more W" and lau: "last_active_unit W1 \<in> {last_active_unit W, Some t}"
  shows "world_inv (put_unit t u' W1)"
proof -
  have us: "units W1 = units W" by (rule more_eq_world(1) [OF more])
  have k: "t \<in> set (map fst (units W))"
    using reg by (simp add: map_of_eq_None_iff)
  have keys: "map fst (AList.update t u' (units W)) = map fst (units W)"
    using k by (simp add: update_keys)
  have all: "list_all (\<lambda>(t, u). unit_type u = t \<and> unit_inv u) (AList.update t u' (units W))"
    using inv u unfolding world_inv_def by (intro list_all_update) simp_all
  have lau': "set_option (last_active_unit W1) \<subseteq> set (map fst (units W))"
  proof (cases "last_active_unit W1 = Some t")
    case True
    with k show ?thesis by simp
  next
    case False
    with lau inv show ?thesis by (simp add: world_inv_def)
  qed
  show ?thesis
    using inv all lau' unfolding world_inv_def put_unit_def by (simp add: us keys)
qed


lemma world_emit_fields [simp]:
  "units (emit m W) = units W" "core_level (emit m W) = core_level W" "log (emit m W) = log W"
  by (simp_all add: emit_def)

lemma world_inv_emit [simp]: "world_inv (emit m W) = world_inv W"
  unfolding world_inv_def by (simp add: emit_def)

lemma world_inv_set_lau:
  "world_inv W \<Longrightarrow> t \<in> set (map fst (units W)) \<Longrightarrow> world_inv (W\<lparr>last_active_unit := Some t\<rparr>)"
  unfolding world_inv_def by simp

lemma world_inv_log [simp]: "world_inv (W\<lparr>log := l\<rparr>) = world_inv W"
  unfolding world_inv_def by simp


lemma with_unit_inv:
  assumes inv: "world_inv W" and run: "with_unit t f W = Inr W'"
    and ok: "\<And>u. map_of (units W) t = Some u \<Longrightarrow>
       unit_inv (fst (f u W)) \<and> unit_type (fst (f u W)) = unit_type u \<and>
       io.more (snd (f u W)) = io.more W \<and>
       last_active_unit (snd (f u W)) \<in> {last_active_unit W, Some (unit_type u)}"
  shows "world_inv W'"
proof -
  from run obtain u where lk: "map_of (units W) t = Some u"
    and W': "W' = put_unit t (fst (f u W)) (snd (f u W))"
    by (auto simp: with_unit_def split_beta split: option.splits)
  from world_inv_lookup [OF inv lk] have ty: "unit_type u = t" and "unit_inv u" by simp_all
  from ok [OF lk] ty have "unit_inv (fst (f u W))" "unit_type (fst (f u W)) = t"
    "io.more (snd (f u W)) = io.more W"
    "last_active_unit (snd (f u W)) \<in> {last_active_unit W, Some t}" by simp_all
  with inv lk show ?thesis
    unfolding W' by (intro world_inv_put_unit) simp_all
qed


lemma with_unit_keys:
  "with_unit t f W = Inr W' \<Longrightarrow> t \<in> set (map fst (units W'))"
  by (auto simp: with_unit_def put_unit_def split_beta dom_update split: option.splits)

lemma sel_unselect_with_unit:
  "sel_unselect t v c W = Inr W' \<Longrightarrow>
   \<exists>arg. id_arg_of v = Some arg \<and> with_unit t (c_unselect arg (default_true c)) W = Inr W'"
  by (auto simp: sel_unselect_def with_unit_def split: option.splits)

lemma sel_select_with_unit:
  "sel_select t v uo c W = Inr W' \<Longrightarrow>
   \<exists>arg W2. id_arg_of v = Some arg \<and>
      with_unit t (c_select arg (default_true uo) (default_true c)) W = Inr W2 \<and>
      (W' = W2 \<or> W' = W2\<lparr>last_active_unit := Some t\<rparr> \<or>
       (\<exists>m. W' = emit m (W2\<lparr>last_active_unit := Some t\<rparr>)))"
  by (auto simp: sel_select_def with_unit_def Let_def split_beta split: option.splits if_splits)


lemma each_unit_inv:
  assumes "list_all (\<lambda>(t, u). unit_type u = t \<and> unit_inv u) us"
    and m: "\<And>u w. unit_inv u \<Longrightarrow>
       unit_inv (fst (m u w)) \<and> unit_type (fst (m u w)) = unit_type u \<and>
       io.more (snd (m u w)) = io.more w \<and>
       last_active_unit (snd (m u w)) \<in> {last_active_unit w, Some (unit_type u)}"
  shows "map fst (fst (each_unit m us W)) = map fst us \<and>
         list_all (\<lambda>(t, u). unit_type u = t \<and> unit_inv u) (fst (each_unit m us W)) \<and>
         io.more (snd (each_unit m us W)) = io.more W \<and>
         set_option (last_active_unit (snd (each_unit m us W)))
           \<subseteq> set_option (last_active_unit W) \<union> set (map fst us)"
  using assms(1)
proof (induction us arbitrary: W)
  case (Cons tu us)
  obtain t u where tu: "tu = (t, u)" by fastforce
  let ?W1 = "snd (m u W)"
  from Cons.prems tu have "unit_type u = t" "unit_inv u"
    and rest: "list_all (\<lambda>(t, u). unit_type u = t \<and> unit_inv u) us" by simp_all
  with m [of u W] have h: "unit_inv (fst (m u W))" "unit_type (fst (m u W)) = t"
    "io.more ?W1 = io.more W" "last_active_unit ?W1 \<in> {last_active_unit W, Some t}" by simp_all
  from Cons.IH [OF rest, of ?W1] h tu show ?case
    by (auto simp: split_beta)
qed simp

lemmas frame_simps = unit_type_unit_ops unit_type_confirmable io_more_unit_ops io_more_confirmable simp_thms

lemma unit_op_facts:
  assumes "unit_inv u"
  shows "unit_inv (fst (unit_confirm u w)) \<and> unit_type (fst (unit_confirm u w)) = unit_type u \<and>
         io.more (snd (unit_confirm u w)) = io.more w \<and>
         last_active_unit (snd (unit_confirm u w)) \<in> {last_active_unit w, Some (unit_type u)}"
    and "unit_inv (fst (unit_cancel u w)) \<and> unit_type (fst (unit_cancel u w)) = unit_type u \<and>
         io.more (snd (unit_cancel u w)) = io.more w \<and>
         last_active_unit (snd (unit_cancel u w)) \<in> {last_active_unit w, Some (unit_type u)}"
    and "unit_inv (fst (c_unselect arg c u w)) \<and> unit_type (fst (c_unselect arg c u w)) = unit_type u \<and>
         io.more (snd (c_unselect arg c u w)) = io.more w \<and>
         last_active_unit (snd (c_unselect arg c u w)) \<in> {last_active_unit w, Some (unit_type u)}"
    and "unit_inv (fst (unit_hover i u w)) \<and> unit_type (fst (unit_hover i u w)) = unit_type u \<and>
         io.more (snd (unit_hover i u w)) = io.more w \<and>
         last_active_unit (snd (unit_hover i u w)) \<in> {last_active_unit w, Some (unit_type u)}"
    and "unit_inv (fst (unit_setContext i u w)) \<and> unit_type (fst (unit_setContext i u w)) = unit_type u \<and>
         io.more (snd (unit_setContext i u w)) = io.more w \<and>
         last_active_unit (snd (unit_setContext i u w)) \<in> {last_active_unit w, Some (unit_type u)}"
  using unit_confirm_inv [OF assms, of w] lau_confirm_check(1) [of u w]
    unit_cancel_inv [OF assms, of w] lau_confirmable(3) [of u w]
    c_unselect_inv [OF assms, of arg c w] lau_confirmable(2) [of arg c u w]
    unit_hover_inv [OF assms, of i w] lau_unit_ops(4) [of i u w]
    unit_setContext_inv [OF assms, of i w] lau_unit_ops(5) [of i u w]
  by (simp_all only: frame_simps)

lemma clear_then_confirm_facts:
  assumes "unit_inv u"
  shows "unit_inv (fst (clear_then_confirm u w)) \<and> unit_type (fst (clear_then_confirm u w)) = unit_type u \<and>
         io.more (snd (clear_then_confirm u w)) = io.more w \<and>
         last_active_unit (snd (clear_then_confirm u w)) \<in> {last_active_unit w, Some (unit_type u)}"
proof -
  let ?u1 = "fst (unit_clear u w)" and ?w1 = "snd (unit_clear u w)"
  have ty: "unit_type ?u1 = unit_type u" by (simp only: frame_simps)
  have "unit_inv ?u1" using assms by (rule unit_clear_inv)
  then have "unit_inv (fst (unit_confirm ?u1 ?w1))" by (rule unit_confirm_inv)
  moreover have "last_active_unit (snd (unit_confirm ?u1 ?w1)) \<in> {last_active_unit w, Some (unit_type u)}"
    by (rule lau_compose [OF lau_unit_ops(7) lau_confirm_check(1) [of ?u1 ?w1, unfolded ty]])
  ultimately show ?thesis by (simp add: clear_then_confirm_def split_beta)
qed


lemma c_select_facts:
  assumes "unit_inv u" and "distinct (as_array arg)" and "as_array arg \<noteq> [] \<or> \<not> uo"
  shows "unit_inv (fst (c_select arg uo c u w)) \<and> unit_type (fst (c_select arg uo c u w)) = unit_type u \<and>
         io.more (snd (c_select arg uo c u w)) = io.more w \<and>
         last_active_unit (snd (c_select arg uo c u w)) \<in> {last_active_unit w, Some (unit_type u)}"
  using c_select_inv [OF assms, of c w] lau_confirmable(1) [of arg uo c u w]
  by (simp only: frame_simps)

lemma unit_patch_facts:
  assumes "unit_inv u" and "dest \<notin> set (selection u)" and "confirmed u \<or> lastActive u \<noteq> Some src"
  shows "unit_inv (fst (unit_patch src dest u w)) \<and> unit_type (fst (unit_patch src dest u w)) = unit_type u \<and>
         io.more (snd (unit_patch src dest u w)) = io.more w \<and>
         last_active_unit (snd (unit_patch src dest u w)) \<in> {last_active_unit w, Some (unit_type u)}"
  using unit_patch_inv [OF assms, of w] lau_unit_ops(6) [of src dest u w]
  by (simp only: frame_simps)

lemma new_cunit_inv: "unit_inv (new_cunit t) \<and> unit_type (new_cunit t) = t"
  by (simp add: new_cunit_def unit_inv_def)

lemma sel_register_inv:
  assumes "world_inv W" and "sel_register t W = Inr W'"
  shows "world_inv W'"
proof (cases "map_of (units W) t = None")
  case True
  then have "t \<notin> set (map fst (units W))" by (simp add: map_of_eq_None_iff)
  with assms True new_cunit_inv [of t] show ?thesis
    by (auto simp: sel_register_def world_inv_def split: if_splits)
next
  case False
  with assms show ?thesis by (simp add: sel_register_def split: if_splits)
qed

lemma each_unit_world_inv:
  assumes inv: "world_inv W"
    and m: "\<And>u w. unit_inv u \<Longrightarrow>
       unit_inv (fst (m u w)) \<and> unit_type (fst (m u w)) = unit_type u \<and>
       io.more (snd (m u w)) = io.more w \<and>
       last_active_unit (snd (m u w)) \<in> {last_active_unit w, Some (unit_type u)}"
  shows "world_inv ((snd (each_unit m (units W) W))\<lparr>units := fst (each_unit m (units W) W)\<rparr>)"
proof -
  have all: "list_all (\<lambda>(t, u). unit_type u = t \<and> unit_inv u) (units W)"
    using inv by (simp add: world_inv_def)
  from each_unit_inv [OF all m, of W] inv show ?thesis
    by (auto simp: world_inv_def)
qed


lemma facade_step_inv:
  assumes inv: "world_inv W" and ok: "op_ok W op" and step: "facade_step op W = Inr W'"
  shows "world_inv W'"
proof (cases op)
  case (Register t)
  with inv step show ?thesis by (simp add: sel_register_inv)
next
  case (Select t v uo c)
  from step Select have "sel_select t v uo c W = Inr W'" by simp
  then obtain arg W2 where arg: "id_arg_of v = Some arg"
    and wu: "with_unit t (c_select arg (default_true uo) (default_true c)) W = Inr W2"
    and W': "W' = W2 \<or> W' = W2\<lparr>last_active_unit := Some t\<rparr> \<or>
             (\<exists>m. W' = emit m (W2\<lparr>last_active_unit := Some t\<rparr>))"
    by (blast dest: sel_select_with_unit)
  have pre: "distinct (as_array arg) \<and> (as_array arg \<noteq> [] \<or> \<not> default_true uo)"
    using ok Select arg by (cases v) auto
  have W2: "world_inv W2"
    using inv wu by (rule with_unit_inv) (use pre world_inv_lookup [OF inv] c_select_facts in blast)
  have "t \<in> set (map fst (units W2))" using wu by (rule with_unit_keys)
  with W2 have "world_inv (W2\<lparr>last_active_unit := Some t\<rparr>)" by (rule world_inv_set_lau)
  with W2 W' show ?thesis by (auto simp del: emit_last_active_unit_update)
next
  case (Unselect t v c)
  with step obtain arg where "with_unit t (c_unselect arg (default_true c)) W = Inr W'"
    by (auto dest: sel_unselect_with_unit)
  with inv show ?thesis
    by (rule with_unit_inv) (use world_inv_lookup [OF inv] unit_op_facts(3) in blast)
next
  case (Hover t i)
  with inv step show ?thesis
    by (auto simp: sel_hover_def intro: with_unit_inv dest: world_inv_lookup [OF inv] unit_op_facts(4))
next
  case (SetContext t i)
  with inv step show ?thesis
    by (auto simp: sel_setContext_def intro: with_unit_inv dest: world_inv_lookup [OF inv] unit_op_facts(5))
next
  case (PatchIds t src dest)
  from step PatchIds have wu: "with_unit t (unit_patch src dest) W = Inr W'" by (simp add: sel_patch_def)
  show ?thesis
  proof (rule with_unit_inv [OF inv wu])
    fix u assume lk: "map_of (units W) t = Some u"
    with ok PatchIds have "dest \<notin> set (selection u)" "confirmed u \<or> lastActive u \<noteq> Some src" by simp_all
    with world_inv_lookup [OF inv lk] show "unit_inv (fst (unit_patch src dest u W)) \<and>
       unit_type (fst (unit_patch src dest u W)) = unit_type u \<and>
       io.more (snd (unit_patch src dest u W)) = io.more W \<and>
       last_active_unit (snd (unit_patch src dest u W)) \<in> {last_active_unit W, Some (unit_type u)}"
      by (intro unit_patch_facts) simp_all
  qed
next
  case (Clear t)
  with inv step show ?thesis
    by (auto simp: sel_clear_def intro: with_unit_inv dest: world_inv_lookup [OF inv] clear_then_confirm_facts)
next
  case ConfirmAll
  with step each_unit_world_inv [OF inv unit_op_facts(1)] show ?thesis
    by (simp add: sel_confirm_def split_beta)
next
  case CancelAll
  with step each_unit_world_inv [OF inv unit_op_facts(2)] show ?thesis
    by (simp add: sel_cancel_def split_beta)
qed


subsection \<open>Runs, reachable states, errors and activation\<close>

lemma facade_apply_inv:
  "world_inv W \<Longrightarrow> op_ok W op \<Longrightarrow> world_inv (facade_apply op W)"
  by (auto simp: facade_apply_def intro: facade_step_inv split: sum.splits)

text \<open>C6: Every sequence of facade calls that satisfies \<open>op_ok\<close> keeps the registry
  invariant. \<open>op_ok\<close> asks that an id array passed to \<^verbatim>\<open>select\<close> has no duplicate
  and is non-empty when the others are unselected, and that \<^verbatim>\<open>patch\<close> renames to an id
  that is not selected and does not rename the active id of a unit in a provisional
  selection. Each condition is needed: without it the code breaks the invariant, by a
  duplicated id, by a stale active id after \<^verbatim>\<open>select([])\<close>, or by an active id
  that a cancelled transaction leaves unselected.\<close>

theorem facade_run_inv:
  "world_inv W \<Longrightarrow> ops_ok W ops \<Longrightarrow> world_inv (facade_run ops W)"
proof (induction ops arbitrary: W)
  case (Cons op ops)
  then show ?case by (simp add: facade_apply_inv)
qed simp

lemma world_inv_init: "world_inv (init_world core)"
  by (simp add: world_inv_def init_world_def)

lemma reachable_world_inv: "reachable W \<Longrightarrow> world_inv W"
proof (induction rule: reachable.induct)
  case (init core)
  show ?case by (rule world_inv_init)
next
  case (step W op)
  from step.IH step.hyps(2) show ?case by (rule facade_apply_inv)
qed

text \<open>C7: In every state reached by facade calls that satisfy \<open>op_ok\<close> (the conditions of the theorem above), a confirmed unit's \<^verbatim>\<open>lastActive\<close> is null or selected, its
  selection has no duplicate, and it is stored under its own type.\<close>

theorem reachable_active_selected:
  assumes "reachable W" and "map_of (units W) t = Some u" and "confirmed u"
  shows "active_in (lastActive u) (selection u) \<and> distinct (selection u) \<and> unit_type u = t"
proof -
  from world_inv_lookup [OF reachable_world_inv [OF assms(1)] assms(2)]
  have "unit_type u = t" "unit_inv u" by simp_all
  with assms(3) show ?thesis by (simp add: unit_inv_def)
qed


lemma reachable_demo: "reachable (facade_run demo_ops (init_world True))"
proof -
  have r0: "reachable (init_world True)" by (rule reachable.init)
  have r1: "reachable (facade_apply (Register ''node'') (init_world True))"
    by (rule reachable.step [OF r0]) simp
  have "reachable (facade_apply (Select ''node'' (JsArray [''a'', ''b'']) None None)
          (facade_apply (Register ''node'') (init_world True)))"
    by (rule reachable.step [OF r1]) simp
  then show ?thesis by simp
qed

lemmas facade_eval = facade_apply_def sel_register_def sel_select_def init_world_def put_unit_def
  new_cunit_def default_true_def unit_eval

theorem reachable_active_selected_witness:
  "active_in (lastActive (the (map_of (units (facade_run demo_ops (init_world True))) ''node'')))
     (selection (the (map_of (units (facade_run demo_ops (init_world True))) ''node'')))"
  using reachable_active_selected [OF reachable_demo,
      where t = "''node''" and u = "the (map_of (units (facade_run demo_ops (init_world True))) ''node'')"]
  by (simp add: facade_eval)


text \<open>C11: A call that addresses an unregistered type only logs the error.\<close>

theorem facade_unknown_type:
  "op_type op = Some t \<Longrightarrow> map_of (units W) t = None \<Longrightarrow>
   facade_apply op W = W\<lparr>log := log W @ [UnknownType t]\<rparr>"
  by (cases op) (auto simp: facade_apply_def sel_select_def sel_unselect_def with_unit_def
      sel_hover_def sel_setContext_def sel_patch_def sel_clear_def)

theorem facade_unknown_type_witness:
  "facade_apply (Hover ''asset'' (Some ''x'')) (init_world True) =
   (init_world True)\<lparr>log := [UnknownType ''asset'']\<rparr>"
  using facade_unknown_type [of "Hover ''asset'' (Some ''x'')" "''asset''" "init_world True"]
  by (simp add: init_world_def)

text \<open>C12: select and unselect reject an id argument that is neither a string nor an
  array: the error is logged and nothing else changes.\<close>

theorem facade_bad_id:
  "map_of (units W) t \<noteq> None \<Longrightarrow>
   facade_apply (Select t JsOther uo c) W = W\<lparr>log := log W @ [BadIdArgument]\<rparr> \<and>
   facade_apply (Unselect t JsOther c) W = W\<lparr>log := log W @ [BadIdArgument]\<rparr>"
  by (auto simp: facade_apply_def sel_select_def sel_unselect_def)

theorem facade_bad_id_witness:
  "facade_apply (Select ''node'' JsOther None None) (facade_apply (Register ''node'') (init_world True))
   = (facade_apply (Register ''node'') (init_world True))\<lparr>log := [BadIdArgument]\<rparr>"
  using facade_bad_id [where W = "facade_apply (Register ''node'') (init_world True)" and t = "''node''"
      and uo = None and c = None]
  by (simp add: facade_eval)


lemma c_select_confirmed_unit:
  assumes "confirmed u" and "distinct (selection u)" and "as_array arg \<noteq> []"
  shows "lastActive (fst (c_select arg uo True u w)) = Some (last (as_array arg))"
    and "confirmed (fst (c_select arg uo True u w))"
  using assms by (simp_all add: c_select_def check_confirm_def unit_select_unit Let_def)

text \<open>C13: A confirmed select of a non-empty id list makes its last id the active id
  of the type and the type the global active one.\<close>

theorem select_sets_global_active:
  assumes inv: "world_inv W" and lk: "map_of (units W) t = Some u" and conf: "confirmed u"
    and arg: "id_arg_of v = Some arg" and ne: "as_array arg \<noteq> []"
    and sel: "sel_select t v uo None W = Inr W'"
  shows "sel_curGlobalActivate W' = Some (t, Some (last (as_array arg))) \<and>
         sel_curActivate t W' = Inr (Some (last (as_array arg)))"
proof -
  let ?r = "c_select arg (default_true uo) True u W"
  have d: "distinct (selection u)" using world_inv_lookup [OF inv lk] by (simp add: unit_inv_def)
  note facts = c_select_confirmed_unit [OF conf d ne, of "default_true uo" W]
  from sel lk arg facts(2) obtain W3 where
    W3: "W3 = (put_unit t (fst ?r) (snd ?r))\<lparr>last_active_unit := Some t\<rparr>"
    and W': "W' = W3 \<or> W' = emit (Activated t (lastActive (fst ?r))) W3"
    by (auto simp: sel_select_def Let_def split_beta default_true_def split: if_splits)
  have "map_of (units W3) t = Some (fst ?r)" "last_active_unit W3 = Some t"
    using W3 by (simp_all add: put_unit_def update_conv')
  with W' facts(1) show ?thesis
    by (auto simp: sel_curGlobalActivate_def sel_curActivate_def query_unit_def)
qed

theorem select_sets_global_active_witness:
  "sel_curGlobalActivate (facade_run demo_ops (init_world True)) = Some (''node'', Some ''b'')"
proof -
  let ?W = "facade_apply (Register ''node'') (init_world True)"
  have inv: "world_inv ?W" by (simp add: facade_eval world_inv_def unit_inv_def)
  have "\<exists>W'. sel_select ''node'' (JsArray [''a'', ''b'']) None None ?W = Inr W'"
    by (simp add: facade_eval)
  then obtain W' where sel: "sel_select ''node'' (JsArray [''a'', ''b'']) None None ?W = Inr W'" ..
  have run: "facade_run demo_ops (init_world True) = W'"
    using sel by (simp add: facade_apply_def)
  have "sel_curGlobalActivate W' = Some (''node'', Some (last [''a'', ''b'']))"
    using select_sets_global_active [OF inv _ _ _ _ sel, where u = "new_cunit ''node''"
        and arg = "Multi [''a'', ''b'']"]
    by (simp add: facade_eval)
  with run show ?thesis by simp
qed

text \<open>C17: \<^verbatim>\<open>select([])\<close> with the default flags on a confirmed unit with an
  active id empties the selection but keeps the id active: \<^verbatim>\<open>_activate\<close> only runs
  for a non-empty array, so the process leaves the registry invariant.\<close>

theorem select_empty_keeps_stale_active:
  assumes inv: "world_inv W" and lk: "map_of (units W) t = Some u" and conf: "confirmed u"
    and act: "lastActive u = Some a" and sel: "sel_select t (JsArray []) None None W = Inr W'"
  shows "sel_curSelection t W' = Inr [] \<and> sel_curActivate t W' = Inr (Some a) \<and> \<not> world_inv W'"
proof -
  let ?r = "c_select (Multi []) True True u W"
  from world_inv_lookup [OF inv lk] have d: "distinct (selection u)" by (simp add: unit_inv_def)
  have u1: "fst ?r = u\<lparr>selection := []\<rparr>"
    using conf d by (simp add: c_select_def check_confirm_def unit_select_unit)
  from sel lk conf u1 obtain W3 where
    W3: "W3 = (put_unit t (fst ?r) (snd ?r))\<lparr>last_active_unit := Some t\<rparr>"
    and W': "W' = W3 \<or> W' = emit (Activated t (lastActive (fst ?r))) W3"
    by (auto simp: sel_select_def Let_def split_beta default_true_def split: if_splits)
  have lk3: "map_of (units W') t = Some (u\<lparr>selection := []\<rparr>)"
    using W3 W' u1 by (auto simp: put_unit_def update_conv')
  have "\<not> world_inv W'"
  proof
    assume "world_inv W'"
    from world_inv_lookup [OF this lk3] conf act show False by (simp add: unit_inv_def)
  qed
  with lk3 act show ?thesis
    by (simp add: sel_curSelection_def sel_curActivate_def query_unit_def)
qed


theorem select_empty_keeps_stale_active_witness:
  "sel_curActivate ''node'' (facade_run (demo_ops @ [Select ''node'' (JsArray []) None None]) (init_world True))
   = Inr (Some ''b'')"
proof -
  let ?W = "facade_run demo_ops (init_world True)"
  have inv: "world_inv ?W" by (simp add: facade_eval world_inv_def unit_inv_def)
  have "\<exists>W'. sel_select ''node'' (JsArray []) None None ?W = Inr W'"
    by (simp add: facade_eval)
  then obtain W' where sel: "sel_select ''node'' (JsArray []) None None ?W = Inr W'" ..
  have run: "facade_run (demo_ops @ [Select ''node'' (JsArray []) None None]) (init_world True) = W'"
    using sel by (simp add: facade_apply_def)
  have "sel_curActivate ''node'' W' = Inr (Some ''b'')"
    using select_empty_keeps_stale_active [OF inv _ _ _ sel, where a = "''b''"
        and u = "the (map_of (units ?W) ''node'')"]
    by (simp add: facade_eval)
  with run show ?thesis by simp
qed

lemma unit_select_activated:
  assumes "confirmed u" and "lastActive u \<noteq> Some x"
  shows "filter is_activated (public_msgs (outbox (snd (unit_select (Single x) uo u w)))) =
         filter is_activated (public_msgs (outbox w)) @ [Activated (unit_type u) (Some x)]"
  using assms
  by (cases uo) (simp_all add: unit_select_parts Let_def activation_out_def send_to_all_def)


text \<open>C19: A confirmed \<^verbatim>\<open>select\<close> of one id that moves activation broadcasts
  \<^verbatim>\<open>selection:activated\<close> for it twice, once from \<^verbatim>\<open>_activate\<close> and once from the
  facade, whose check compares the state before and after the whole call.\<close>

theorem select_activated_twice:
  assumes inv: "world_inv W" and lk: "map_of (units W) t = Some u" and conf: "confirmed u"
    and na: "lastActive u \<noteq> Some x" and sel: "sel_select t (JsString x) uo None W = Inr W'"
  shows "filter is_activated (public_msgs (outbox W')) =
         filter is_activated (public_msgs (outbox W)) @ [Activated t (Some x), Activated t (Some x)]"
proof -
  let ?r = "c_select (Single x) (default_true uo) True u W"
  from world_inv_lookup [OF inv lk] have ty: "unit_type u = t" and d: "distinct (selection u)"
    by (simp_all add: unit_inv_def)
  have r: "?r = unit_select (Single x) (default_true uo) u W"
    using conf by (simp add: c_select_def check_confirm_def)
  note facts = c_select_confirmed_unit [OF conf d, of "Single x" "default_true uo" W]
  have o: "filter is_activated (public_msgs (outbox (snd ?r))) =
           filter is_activated (public_msgs (outbox W)) @ [Activated t (Some x)]"
    unfolding r using unit_select_activated [OF conf na] ty by simp
  from sel lk facts na have "W' = emit (Activated t (Some x)) ((put_unit t (fst ?r) (snd ?r))\<lparr>last_active_unit := Some t\<rparr>)"
    by (simp add: sel_select_def Let_def split_beta default_true_def del: emit_last_active_unit_update)
  with o show ?thesis by (simp add: put_unit_def emit_def send_to_all_def)
qed


theorem select_activated_twice_witness:
  "filter is_activated (public_msgs (outbox (facade_run [Register ''node'', Select ''node'' (JsString ''a'') None None]
                          (init_world True))))
   = [Activated ''node'' (Some ''a''), Activated ''node'' (Some ''a'')]"
proof -
  let ?W = "facade_apply (Register ''node'') (init_world True)"
  have inv: "world_inv ?W" by (simp add: facade_eval world_inv_def unit_inv_def)
  have "\<exists>W'. sel_select ''node'' (JsString ''a'') None None ?W = Inr W'"
    by (simp add: facade_eval)
  then obtain W' where sel: "sel_select ''node'' (JsString ''a'') None None ?W = Inr W'" ..
  have run: "facade_run [Register ''node'', Select ''node'' (JsString ''a'') None None] (init_world True) = W'"
    using sel by (simp add: facade_apply_def)
  have "filter is_activated (public_msgs (outbox W')) =
        filter is_activated (public_msgs (outbox ?W)) @ [Activated ''node'' (Some ''a''), Activated ''node'' (Some ''a'')]"
    using select_activated_twice [OF inv _ _ _ sel, where u = "new_cunit ''node''"]
    by (simp add: facade_eval)
  with run show ?thesis by (simp add: facade_eval)
qed

theorem facade_run_inv_witness:
  "world_inv (facade_run demo_ops (init_world True))"
  using facade_run_inv [of "init_world True" demo_ops] world_inv_init [of True]
  by (simp add: facade_eval)


subsection \<open>Frame facts used by the replication theory\<close>

lemma put_unit_fields [simp]:
  "last_active_unit (put_unit t u W) = last_active_unit W"
  "outbox (put_unit t u W) = outbox W"
  "units (put_unit t u W) = AList.update t u (units W)"
  by (simp_all add: put_unit_def)

lemma io_more_clear_then_confirm [simp]: "io.more (snd (clear_then_confirm u w)) = io.more w"
  by (simp add: clear_then_confirm_def split_beta)

end
