(* ===== verification/Replication.thy ===== *)
theory Replication
  imports Registry
begin

text \<open>
  The replication protocol of \<^verbatim>\<open>src/share/selection.js\<close> (lines 560--680): the
  \<^verbatim>\<open>Ipc.on('_selection:xxx', ...)\<close> handlers by which a process applies the
  internal copy of every message another process sent, writing the replica's fields
  directly and sending nothing. A handler body is \<open>recv_unit\<close>, acting on the
  process-wide \<^verbatim>\<open>_lastActiveUnit\<close> (a type key) and the addressed unit;
  \<open>recv\<close> adds the table lookup and its error, \<open>recv_apply\<close> the log line,
  and \<open>recv_all\<close> the delivery of a sender's messages in its send order. There is
  no handler for \<^verbatim>\<open>_selection:changed\<close>, so that message does nothing.

  The view of a process is what the protocol replicates: the global active type and,
  per type, the selection, \<^verbatim>\<open>lastActive\<close>, \<^verbatim>\<open>lastHover\<close> and the context
  id (\<open>wview\<close>). The confirm state of a transaction is local and not part of it.
  The main theorem is a simulation: every facade call except \<^verbatim>\<open>register\<close>, on
  the well-formed inputs of theory \<open>Registry\<close> and with hover ids that are not
  the empty string, sends internal messages whose replay by a replica that agreed with
  the sender before the call makes it agree after. It is proved per unit operation
  (\<open>replays\<close>: the sender's own messages replayed from its old unit give its new
  unit), lifted to the table (\<open>wreplays\<close>), and composed over runs.
\<close>

subsection \<open>Receive handlers\<close>

text \<open>The type argument of an internal message that has a handler.\<close>

fun msg_type :: "msg \<Rightarrow> sel_type option" where
  "msg_type (Selected t ids) = Some t"
| "msg_type (Unselected t ids) = Some t"
| "msg_type (Activated t i) = Some t"
| "msg_type (Deactivated t i) = Some t"
| "msg_type (HoverIn t i) = Some t"
| "msg_type (HoverOut t i) = Some t"
| "msg_type (Context t i) = Some t"
| "msg_type (Changed t) = None"
| "msg_type (Patch t src dest) = Some t"

text \<open>The body of each handler after the unit lookup, on the pair of
  \<^verbatim>\<open>_lastActiveUnit\<close> and the unit. \<^verbatim>\<open>_lastActiveUnit === selectionUnit\<close> is the
  comparison of type keys, which are unique in the table.\<close>

fun recv_unit :: "msg \<Rightarrow> sel_type option \<times> cunit \<Rightarrow> sel_type option \<times> cunit" where
  "recv_unit (Selected t ids) (l, u) =
    (let ids1 = filter (\<lambda>x. x \<notin> set (selection u)) ids
     in if length ids1 = 1 then (l, u\<lparr>selection := selection u @ [ids1 ! 0]\<rparr>)
        else if 1 < length ids1 then (l, u\<lparr>selection := selection u @ ids1\<rparr>)
        else (l, u))"
| "recv_unit (Unselected t ids) (l, u) = (l, u\<lparr>selection := filter (\<lambda>x. x \<notin> set ids) (selection u)\<rparr>)"
| "recv_unit (Activated t i) (l, u) = (Some t, u\<lparr>lastActive := i\<rparr>)"
| "recv_unit (Deactivated t i) (l, u) = ((if l = Some t then None else l), u\<lparr>lastActive := None\<rparr>)"
| "recv_unit (HoverIn t i) (l, u) = (l, u\<lparr>lastHover := i\<rparr>)"
| "recv_unit (HoverOut t i) (l, u) = (l, u\<lparr>lastHover := None\<rparr>)"
| "recv_unit (Context t i) (l, u) = (l, u\<lparr>context_id := i\<rparr>)"
| "recv_unit (Patch t src dest) (l, u) = (l, patch_fields src dest u)"
| "recv_unit (Changed t) (l, u) = (l, u)"

text \<open>\<^verbatim>\<open>var selectionUnit = _units[type]; if (!selectionUnit) { Editor.error(...); return; }\<close>
  followed by the handler body.\<close>

definition recv :: "msg \<Rightarrow> world \<Rightarrow> sel_error + world" where
  "recv m W =
    (case msg_type m of
       None \<Rightarrow> Inr W
     | Some t \<Rightarrow>
         (case map_of (units W) t of
            None \<Rightarrow> Inl (UnknownType t)
          | Some u \<Rightarrow>
              (let (l1, u1) = recv_unit m (last_active_unit W, u)
               in Inr (put_unit t u1 (W\<lparr>last_active_unit := l1\<rparr>)))))"

definition recv_apply :: "msg \<Rightarrow> world \<Rightarrow> world" where
  "recv_apply m W = (case recv m W of Inl e \<Rightarrow> W\<lparr>log := log W @ [e]\<rparr> | Inr W1 \<Rightarrow> W1)"

text \<open>Delivery of a list of internal messages in the sender's order (the transport
  of the spec is per-sender FIFO).\<close>

fun recv_all :: "msg list \<Rightarrow> world \<Rightarrow> world" where
  "recv_all [] W = W"
| "recv_all (m # ms) W = recv_all ms (recv_apply m W)"

subsection \<open>Views and replay\<close>

definition uview :: "'b sunit_scheme \<Rightarrow> obj_id list \<times> obj_id option \<times> obj_id option \<times> obj_id option" where
  "uview u = (selection u, lastActive u, lastHover u, context_id u)"

definition rview :: "sel_type option \<times> cunit \<Rightarrow> sel_type option \<times> obj_id list \<times> obj_id option \<times> obj_id option \<times> obj_id option" where
  "rview s = (fst s, uview (snd s))"

definition wview :: "world \<Rightarrow> sel_type option \<times> (sel_type \<times> obj_id list \<times> obj_id option \<times> obj_id option \<times> obj_id option) list" where
  "wview W = (last_active_unit W, map (\<lambda>(t, u). (t, uview u)) (units W))"

text \<open>The internal messages a process sent between two of its states.\<close>

definition sent_since :: "'a io_scheme \<Rightarrow> 'b io_scheme \<Rightarrow> msg list" where
  "sent_since w w' = internal_msgs (drop (length (outbox w)) (outbox w'))"

definition msgs_for :: "sel_type \<Rightarrow> msg list \<Rightarrow> bool" where
  "msgs_for t ms \<longleftrightarrow> list_all (\<lambda>m. msg_type m = None \<or> msg_type m = Some t) ms"

text \<open>A unit operation is replayed when its outbox only grows, its internal messages
  address its own type, and those messages, applied by the handlers to the old unit and
  global pointer, give the new unit's view and the new global pointer.\<close>

definition replays :: "sel_type \<Rightarrow> cunit \<Rightarrow> 'a io_scheme \<Rightarrow> cunit \<times> 'a io_scheme \<Rightarrow> bool" where
  "replays t u w r \<longleftrightarrow>
     take (length (outbox w)) (outbox (snd r)) = outbox w \<and> msgs_for t (sent_since w (snd r)) \<and>
     rview (fold recv_unit (sent_since w (snd r)) (last_active_unit w, u)) =
       (last_active_unit (snd r), uview (fst r))"

definition wreplays :: "world \<Rightarrow> world \<Rightarrow> bool" where
  "wreplays W W' \<longleftrightarrow>
     take (length (outbox W)) (outbox W') = outbox W \<and> wview (recv_all (sent_since W W') W) = wview W'"

text \<open>The facade calls the simulation covers, and the hover slots it needs: an empty
  string id is falsy in JavaScript, so \<^verbatim>\<open>hover\<close> sends no message for it.\<close>

fun rep_ok :: "facade_op \<Rightarrow> bool" where
  "rep_ok (Register t) = False"
| "rep_ok (Hover t i) = (i \<noteq> Some [])"
| "rep_ok (PatchIds t src dest) = (dest \<noteq> [])"
| "rep_ok op = True"

definition hovers_ok :: "world \<Rightarrow> bool" where
  "hovers_ok W \<longleftrightarrow> Some [] \<notin> set (map (\<lambda>(t, u). lastHover u) (units W))"

text \<open>A page process that already holds the unit \<^verbatim>\<open>node\<close>, the core process after
  registering it, and the calls of the example.\<close>

abbreviation page_node :: world where
  "page_node \<equiv> \<lparr>last_active_unit = None, outbox = [], units = [(''node'', new_cunit ''node'')],
     core_level = False, log = []\<rparr>"

abbreviation core_node :: world where
  "core_node \<equiv> facade_run [Register ''node''] (init_world True)"

abbreviation rep_demo :: "facade_op list" where
  "rep_demo \<equiv> [Select ''node'' (JsArray [''a'', ''b'']) None None, Hover ''node'' (Some ''a''),
     Unselect ''node'' (JsString ''b'') None]"

subsection \<open>Replay of one unit operation\<close>

lemma rview_recv_unit:
  assumes "rview s1 = rview s2"
  shows "rview (recv_unit m s1) = rview (recv_unit m s2)"
proof -
  obtain l1 u1 l2 u2 where s: "s1 = (l1, u1)" "s2 = (l2, u2)" by fastforce
  with assms have "l1 = l2" "selection u1 = selection u2" "lastActive u1 = lastActive u2"
    "lastHover u1 = lastHover u2" "context_id u1 = context_id u2"
    by (simp_all add: rview_def uview_def)
  with s show ?thesis
    by (cases m) (simp_all add: rview_def uview_def patch_fields_def Let_def)
qed

lemma rview_fold:
  "rview s1 = rview s2 \<Longrightarrow> rview (fold recv_unit ms s1) = rview (fold recv_unit ms s2)"
proof (induction ms arbitrary: s1 s2)
  case (Cons m ms)
  from Cons.prems have "rview (recv_unit m s1) = rview (recv_unit m s2)" by (rule rview_recv_unit)
  from Cons.IH [OF this] show ?case by simp
qed simp

lemma sent_since_append:
  "outbox w' = outbox w @ n \<Longrightarrow> sent_since w w' = internal_msgs n"
  by (simp add: sent_since_def)

lemma replays_intro:
  assumes "outbox (snd r) = outbox w @ n" and "msgs_for t (internal_msgs n)"
    and "rview (fold recv_unit (internal_msgs n) (last_active_unit w, u)) =
         (last_active_unit (snd r), uview (fst r))"
  shows "replays t u w r"
  using assms by (simp add: replays_def sent_since_append)

lemma replays_elim:
  assumes "replays t u w r"
  obtains n where "outbox (snd r) = outbox w @ n" and "msgs_for t (internal_msgs n)"
    and "rview (fold recv_unit (internal_msgs n) (last_active_unit w, u)) =
         (last_active_unit (snd r), uview (fst r))"
proof
  let ?n = "drop (length (outbox w)) (outbox (snd r))"
  from assms have "take (length (outbox w)) (outbox (snd r)) = outbox w" by (simp add: replays_def)
  then show "outbox (snd r) = outbox w @ ?n"
    using append_take_drop_id [of "length (outbox w)" "outbox (snd r)"] by simp
  from assms show "msgs_for t (internal_msgs ?n)"
    and "rview (fold recv_unit (internal_msgs ?n) (last_active_unit w, u)) =
         (last_active_unit (snd r), uview (fst r))"
    by (simp_all add: replays_def sent_since_def)
qed

lemma replays_trans:
  assumes "replays t u w (u1, w1)" and "replays t u1 w1 r"
  shows "replays t u w r"
proof -
  from assms(1) obtain n1 where o1: "outbox w1 = outbox w @ n1" and f1: "msgs_for t (internal_msgs n1)"
    and v1: "rview (fold recv_unit (internal_msgs n1) (last_active_unit w, u)) = (last_active_unit w1, uview u1)"
    by (rule replays_elim) simp
  from assms(2) obtain n2 where o2: "outbox (snd r) = outbox w1 @ n2" and f2: "msgs_for t (internal_msgs n2)"
    and v2: "rview (fold recv_unit (internal_msgs n2) (last_active_unit w1, u1)) =
             (last_active_unit (snd r), uview (fst r))"
    by (rule replays_elim)
  have "rview (fold recv_unit (internal_msgs n1) (last_active_unit w, u)) = rview (last_active_unit w1, u1)"
    using v1 by (simp add: rview_def)
  from rview_fold [OF this, of "internal_msgs n2"] v2
  have "rview (fold recv_unit (internal_msgs n2) (fold recv_unit (internal_msgs n1) (last_active_unit w, u))) =
        (last_active_unit (snd r), uview (fst r))"
    by (simp only:)
  then have v: "rview (fold recv_unit (internal_msgs (n1 @ n2)) (last_active_unit w, u)) =
        (last_active_unit (snd r), uview (fst r))" by (simp only: internal_msgs_append fold_append comp_def)
  have "outbox (snd r) = outbox w @ (n1 @ n2)" using o1 o2 by (simp only: append_assoc)
  moreover have "msgs_for t (internal_msgs (n1 @ n2))" using f1 f2 by (simp add: msgs_for_def)
  ultimately show ?thesis using v by (rule replays_intro)
qed

lemma replays_same_view:
  "uview u' = uview u \<Longrightarrow> replays t u w (u', w)"
  by (rule replays_intro [where n = "[]"]) (simp_all add: msgs_for_def rview_def)

lemma replays_view_cong:
  assumes "uview u0 = uview u" and "replays t u0 w r"
  shows "replays t u w r"
proof -
  from assms(2) obtain n where o: "outbox (snd r) = outbox w @ n" and f: "msgs_for t (internal_msgs n)"
    and v: "rview (fold recv_unit (internal_msgs n) (last_active_unit w, u0)) = (last_active_unit (snd r), uview (fst r))"
    by (rule replays_elim)
  have "rview (last_active_unit w, u) = rview (last_active_unit w, u0)"
    using assms(1) by (simp add: rview_def)
  from rview_fold [OF this, of "internal_msgs n"] v
  have "rview (fold recv_unit (internal_msgs n) (last_active_unit w, u)) = (last_active_unit (snd r), uview (fst r))"
    by (simp only:)
  with o f show ?thesis by (rule replays_intro)
qed

lemma replays_trans':
  "replays t u w r1 \<Longrightarrow> replays t (fst r1) (snd r1) r \<Longrightarrow> replays t u w r"
  by (cases r1) (simp add: replays_trans)

lemma replays_refl: "replays t (fst r) (snd r) r"
  by (cases r) (simp add: replays_same_view)

lemma replays_changed: "replays t u w (u, emit (Changed t') w)"
  by (rule replays_intro [where n = "send_to_all (Changed t')"])
     (simp_all add: msgs_for_def rview_def send_to_all_def)

lemma replays_activate: "replays (unit_type u) u w (activate i u w)"
  by (rule replays_intro [where n = "activation_out u i"])
     (simp_all add: activation_out_def activate_eq msgs_for_def rview_def uview_def send_to_all_def)

lemma replays_emit_changed: "replays (unit_type u) u w (emit_changed c u w)"
  by (cases c) (simp_all add: emit_changed_def replays_changed replays_same_view)

lemma replays_unselect_others:
  assumes "distinct (selection u)"
  shows "replays (unit_type u) u w (snd (unselect_others ids u w))"
proof (rule replays_intro)
  let ?d = "ld_difference (selection u) ids"
  show "outbox (snd (snd (unselect_others ids u w))) = outbox w @
          (if ?d \<noteq> [] then send_to_all (Unselected (unit_type u) ?d) else [])"
    by simp
  show "msgs_for (unit_type u) (internal_msgs (if ?d \<noteq> [] then send_to_all (Unselected (unit_type u) ?d) else []))"
    by (simp add: msgs_for_def)
  show "rview (fold recv_unit (internal_msgs (if ?d \<noteq> [] then send_to_all (Unselected (unit_type u) ?d) else []))
          (last_active_unit w, u)) =
        (last_active_unit (snd (snd (unselect_others ids u w))), uview (fst (snd (unselect_others ids u w))))"
    using assms by (simp add: rview_def uview_def ld_difference_Nil_iff filter_member_imp)
qed

lemma recv_selected_fresh:
  assumes "set xs \<inter> set (selection u) = {}" and "xs \<noteq> []"
  shows "recv_unit (Selected t xs) (l, u) = (l, u\<lparr>selection := selection u @ xs\<rparr>)"
proof -
  have f: "filter (\<lambda>x. x \<notin> set (selection u)) xs = xs"
    using assms(1) by (auto simp: filter_id_conv)
  show ?thesis
  proof (cases "length xs = 1")
    case True
    then obtain x where "xs = [x]" by (auto simp: length_Suc_conv)
    then show ?thesis using f by simp
  next
    case False
    with assms(2) have "1 < length xs" by (cases xs) auto
    with f False show ?thesis by simp
  qed
qed

lemma replays_selected:
  assumes "d = ld_difference ids (selection u)" and "d \<noteq> []"
  shows "replays (unit_type u) u w (u\<lparr>selection := selection u @ d\<rparr>, emit (Selected (unit_type u) d) w)"
proof -
  have "set d \<inter> set (selection u) = {}" using assms(1) by auto
  with assms(2) show ?thesis
    by (intro replays_intro [where n = "send_to_all (Selected (unit_type u) d)"])
       (simp_all del: recv_unit.simps add: msgs_for_def rview_def recv_selected_fresh)
qed

lemma select_add_snd:
  "snd (select_add ids c u w) =
    (if ids = [] then (u, w)
     else (let d = ld_difference ids (selection u);
               r = (if d \<noteq> [] then (u\<lparr>selection := selection u @ d\<rparr>, emit (Selected (unit_type u) d) w)
                    else (u, w))
           in activate (Some (last ids)) (fst r) (snd r)))"
  by (simp add: select_add_def Let_def split_beta)

lemma replays_select_add: "replays (unit_type u) u w (snd (select_add ids c u w))"
proof (cases "ids = []")
  case True
  then show ?thesis by (simp add: select_add_snd replays_same_view)
next
  case False
  let ?d = "ld_difference ids (selection u)"
  define r where "r =
      (if ?d \<noteq> [] then (u\<lparr>selection := selection u @ ?d\<rparr>, emit (Selected (unit_type u) ?d) w) else (u, w))"
  have 1: "replays (unit_type u) u w r" and ty: "unit_type (fst r) = unit_type u"
    by (simp_all add: r_def replays_selected replays_same_view)
  have 2: "replays (unit_type u) (fst r) (snd r) (activate (Some (last ids)) (fst r) (snd r))"
    using replays_activate [of "fst r" "snd r"] by (simp only: ty)
  from replays_trans' [OF 1 2] False show ?thesis
    by (simp add: select_add_snd Let_def r_def)
qed

lemma replays_unit_select:
  assumes "distinct (selection u)"
  shows "replays (unit_type u) u w (unit_select arg uo u w)"
proof -
  let ?ids = "as_array arg"
  let ?r1 = "if uo then unselect_others ?ids u w else (False, u, w)"
  let ?r2 = "select_add ?ids (fst ?r1) (fst (snd ?r1)) (snd (snd ?r1))"
  have ty1: "unit_type (fst (snd ?r1)) = unit_type u" by simp
  have ty2: "unit_type (fst (snd ?r2)) = unit_type u" by (simp add: ty1)
  have 1: "replays (unit_type u) u w (snd ?r1)"
    using assms by (simp add: replays_unselect_others replays_same_view)
  have 2: "replays (unit_type u) (fst (snd ?r1)) (snd (snd ?r1)) (snd ?r2)"
    using replays_select_add [of "fst (snd ?r1)"] by (simp only: ty1)
  have 3: "replays (unit_type u) (fst (snd ?r2)) (snd (snd ?r2))
             (emit_changed (fst ?r2) (fst (snd ?r2)) (snd (snd ?r2)))"
    using replays_emit_changed [of "fst (snd ?r2)"] by (simp only: ty2)
  from replays_trans' [OF replays_trans' [OF 1 2] 3] show ?thesis
    by (simp add: unit_select_parts Let_def)
qed

lemma replays_unselect_remove:
  assumes "distinct (selection u)"
  shows "replays (unit_type u) u w (snd (snd (unselect_remove arg u w)))"
proof (rule replays_intro)
  let ?d = "ld_intersection (as_array arg) (selection u)"
  let ?n = "if ?d \<noteq> [] then send_to_all (Unselected (unit_type u) ?d) else []"
  show "outbox (snd (snd (snd (unselect_remove arg u w)))) = outbox w @ ?n"
    using assms by (rule unselect_remove_out(1))
  show "msgs_for (unit_type u) (internal_msgs ?n)"
    by (simp add: msgs_for_def)
  have "?d = [] \<Longrightarrow> filter (\<lambda>y. y \<notin> set (as_array arg)) (selection u) = selection u"
    by (metis filter_True set_empty2 set_ld_intersection disjoint_iff)
  then show "rview (fold recv_unit (internal_msgs ?n) (last_active_unit w, u)) =
        (last_active_unit (snd (snd (snd (unselect_remove arg u w)))),
         uview (fst (snd (snd (unselect_remove arg u w)))))"
    using assms by (auto simp: rview_def uview_def intro: filter_cong)
qed

lemma replays_unit_unselect:
  assumes "distinct (selection u)"
  shows "replays (unit_type u) u w (unit_unselect arg u w)"
proof -
  let ?r1 = "unselect_remove arg u w"
  define r2 where "r2 = (if fst (snd ?r1) then activate (last_or_null (selection (fst (snd (snd ?r1)))))
                 (fst (snd (snd ?r1))) (snd (snd (snd ?r1)))
               else (fst (snd (snd ?r1)), snd (snd (snd ?r1))))"
  have ty1: "unit_type (fst (snd (snd ?r1))) = unit_type u" by simp
  have ty2: "unit_type (fst r2) = unit_type u" by (simp add: r2_def)
  have 1: "replays (unit_type u) u w (snd (snd ?r1))"
    using assms by (rule replays_unselect_remove)
  have 2: "replays (unit_type u) (fst (snd (snd ?r1))) (snd (snd (snd ?r1))) r2"
  proof -
    have "replays (unit_type u) (fst (snd (snd ?r1))) (snd (snd (snd ?r1)))
            (activate i (fst (snd (snd ?r1))) (snd (snd (snd ?r1))))" for i
      using replays_activate [of "fst (snd (snd ?r1))"] by (simp only: ty1)
    then show ?thesis by (simp add: r2_def replays_refl)
  qed
  have 3: "replays (unit_type u) (fst r2) (snd r2) (emit_changed (fst ?r1) (fst r2) (snd r2))"
    using replays_emit_changed [of "fst r2"] by (simp only: ty2)
  from replays_trans' [OF replays_trans' [OF 1 2] 3] show ?thesis
    by (simp add: unit_unselect_parts Let_def r2_def)
qed

lemma replays_unit_hover:
  assumes "lastHover u \<noteq> Some []" and "i \<noteq> Some []"
  shows "replays (unit_type u) u w (unit_hover i u w)"
proof (rule replays_intro)
  let ?n = "if lastHover u \<noteq> i
            then (if truthy (lastHover u) then send_to_all (HoverOut (unit_type u) (lastHover u)) else [])
                 @ (if truthy i then send_to_all (HoverIn (unit_type u) i) else [])
            else []"
  show "outbox (snd (unit_hover i u w)) = outbox w @ ?n" by simp
  show "msgs_for (unit_type u) (internal_msgs ?n)" by (simp add: msgs_for_def)
  show "rview (fold recv_unit (internal_msgs ?n) (last_active_unit w, u)) =
        (last_active_unit (snd (unit_hover i u w)), uview (fst (unit_hover i u w)))"
    using assms by (cases i; cases "lastHover u") (auto simp: rview_def uview_def)
qed

lemma replays_unit_setContext: "replays (unit_type u) u w (unit_setContext i u w)"
  by (rule replays_intro [where n = "send_to_all (Context (unit_type u) i)"])
     (simp_all add: msgs_for_def rview_def uview_def)

lemma replays_unit_patch: "replays (unit_type u) u w (unit_patch src dest u w)"
  by (rule replays_intro [where n = "send_to_all (Patch (unit_type u) src dest)"])
     (simp_all add: msgs_for_def rview_def)

lemma replays_unit_clear: "replays (unit_type u) u w (unit_clear u w)"
proof -
  let ?u1 = "u\<lparr>selection := []\<rparr>" and ?w1 = "emit (Unselected (unit_type u) (selection u)) w"
  have 1: "replays (unit_type u) u w (?u1, ?w1)"
    by (rule replays_intro [where n = "send_to_all (Unselected (unit_type u) (selection u))"])
       (simp_all add: msgs_for_def rview_def uview_def)
  have 2: "replays (unit_type u) ?u1 ?w1 (activate None ?u1 ?w1)"
    using replays_activate [of ?u1 ?w1] by simp
  have 3: "replays (unit_type u) (fst (activate None ?u1 ?w1)) (snd (activate None ?u1 ?w1))
             (fst (activate None ?u1 ?w1), emit (Changed (unit_type u)) (snd (activate None ?u1 ?w1)))"
    by (rule replays_changed)
  from replays_trans' [OF replays_trans [OF 1 2] 3] show ?thesis
    by (simp add: unit_clear_def Let_def split_beta)
qed

lemma replays_unit_confirm: "replays (unit_type u) u w (unit_confirm u w)"
proof (cases "confirmed u")
  case False
  let ?u0 = "u\<lparr>confirmedSnapShot := [], confirmed := True\<rparr>"
  have uv: "uview ?u0 = uview u" by (simp add: uview_def)
  have "replays (unit_type u) ?u0 w (activate (last_or_null (selection u)) ?u0 w)"
    using replays_activate [of ?u0] by simp
  from replays_view_cong [OF uv this]
  have "replays (unit_type u) u w (activate (last_or_null (selection u)) ?u0 w)" .
  with False show ?thesis by (simp add: unit_confirm_def)
qed (simp add: unit_confirm_def replays_same_view)

lemma replays_check_confirm: "replays (unit_type u) u w (check_confirm c u w)"
  by (simp add: check_confirm_def replays_unit_confirm replays_same_view uview_def)

lemma replays_c_select:
  assumes "distinct (selection u)"
  shows "replays (unit_type u) u w (c_select arg uo c u w)"
proof -
  let ?r = "check_confirm c u w"
  have ty: "unit_type (fst ?r) = unit_type u" and d: "distinct (selection (fst ?r))"
    using assms by simp_all
  have "replays (unit_type u) (fst ?r) (snd ?r) (unit_select arg uo (fst ?r) (snd ?r))"
    using replays_unit_select [OF d] by (simp only: ty)
  from replays_trans' [OF replays_check_confirm this] show ?thesis
    by (simp add: c_select_def split_beta)
qed

lemma replays_c_unselect:
  assumes "distinct (selection u)"
  shows "replays (unit_type u) u w (c_unselect arg c u w)"
proof -
  let ?r = "check_confirm c u w"
  have ty: "unit_type (fst ?r) = unit_type u" and d: "distinct (selection (fst ?r))"
    using assms by simp_all
  have "replays (unit_type u) (fst ?r) (snd ?r) (unit_unselect arg (fst ?r) (snd ?r))"
    using replays_unit_unselect [OF d] by (simp only: ty)
  from replays_trans' [OF replays_check_confirm this] show ?thesis
    by (simp add: c_unselect_def split_beta)
qed

lemma replays_unit_cancel:
  assumes "distinct (selection u)"
  shows "replays (unit_type u) u w (unit_cancel u w)"
proof (cases "confirmed u")
  case False
  let ?r = "unit_select (Multi (confirmedSnapShot u)) True u w"
  have "replays (unit_type u) (fst ?r) (snd ?r)
          ((fst ?r)\<lparr>confirmedSnapShot := [], confirmed := True\<rparr>, snd ?r)"
    by (rule replays_same_view) (simp add: uview_def)
  from replays_trans' [OF replays_unit_select [OF assms] this] False show ?thesis
    by (simp add: unit_cancel_def split_beta)
qed (simp add: unit_cancel_def replays_same_view)

lemma replays_clear_then_confirm: "replays (unit_type u) u w (clear_then_confirm u w)"
proof -
  let ?r = "unit_clear u w"
  have "replays (unit_type u) (fst ?r) (snd ?r) (unit_confirm (fst ?r) (snd ?r))"
  proof -
    have ty: "unit_type (fst ?r) = unit_type u" by simp
    show ?thesis using replays_unit_confirm [of "fst ?r" "snd ?r"] by (simp only: ty)
  qed
  from replays_trans' [OF replays_unit_clear this] show ?thesis
    by (simp add: clear_then_confirm_def split_beta)
qed

subsection \<open>Replay at the level of the unit table\<close>

lemma uv_update:
  "map (\<lambda>(t, u). (t, uview u)) (AList.update k v al) = AList.update k (uview v) (map (\<lambda>(t, u). (t, uview u)) al)"
  by (induction al) auto

lemma map_of_uv: "map_of (map (\<lambda>(t, u). (t, uview u)) al) k = map_option uview (map_of al k)"
  by (induction al) auto

lemma wview_put_unit:
  "wview (put_unit t v (W\<lparr>last_active_unit := l\<rparr>)) = (l, AList.update t (uview v) (snd (wview W)))"
  "wview (put_unit t v W) = (last_active_unit W, AList.update t (uview v) (snd (wview W)))"
  by (simp_all add: wview_def put_unit_def uv_update)

lemma snd_wview_lau [simp]: "snd (wview (W\<lparr>last_active_unit := l\<rparr>)) = snd (wview W)"
  by (simp add: wview_def)

lemma wview_log [simp]: "wview (W\<lparr>log := x\<rparr>) = wview W"
  by (simp add: wview_def)

lemma recv_unit_untyped: "msg_type m = None \<Longrightarrow> recv_unit m s = s"
  by (cases m; cases s) simp_all

lemma recv_apply_typed:
  assumes "msg_type m = Some t" and "map_of (units W) t = Some u"
  shows "recv_apply m W = put_unit t (snd (recv_unit m (last_active_unit W, u)))
           (W\<lparr>last_active_unit := fst (recv_unit m (last_active_unit W, u))\<rparr>)"
  using assms by (simp add: recv_apply_def recv_def split_beta)

lemma recv_apply_untyped: "msg_type m = None \<Longrightarrow> recv_apply m W = W"
  by (simp add: recv_apply_def recv_def)

lemma recv_apply_unknown:
  "msg_type m = Some t \<Longrightarrow> map_of (units W) t = None \<Longrightarrow> recv_apply m W = W\<lparr>log := log W @ [UnknownType t]\<rparr>"
  by (simp add: recv_apply_def recv_def)

lemma wview_recv_apply:
  assumes "wview R1 = wview R2"
  shows "wview (recv_apply m R1) = wview (recv_apply m R2)"
proof (cases "msg_type m")
  case None
  with assms show ?thesis by (simp add: recv_apply_untyped)
next
  case (Some t)
  have lk: "map_option uview (map_of (units R1) t) = map_option uview (map_of (units R2) t)"
    and l: "last_active_unit R1 = last_active_unit R2"
    using assms by (simp_all add: wview_def map_of_uv [symmetric])
  show ?thesis
  proof (cases "map_of (units R1) t")
    case None
    with lk Some assms show ?thesis by (simp add: recv_apply_unknown)
  next
    case (Some u1)
    with lk obtain u2 where u2: "map_of (units R2) t = Some u2" and "uview u1 = uview u2"
      by (cases "map_of (units R2) t") auto
    then have "rview (last_active_unit R1, u1) = rview (last_active_unit R2, u2)"
      using l by (simp add: rview_def)
    from rview_recv_unit [OF this, of m] have
      "fst (recv_unit m (last_active_unit R1, u1)) = fst (recv_unit m (last_active_unit R2, u2))"
      "uview (snd (recv_unit m (last_active_unit R1, u1))) = uview (snd (recv_unit m (last_active_unit R2, u2)))"
      by (simp_all add: rview_def)
    with Some u2 \<open>msg_type m = Some t\<close> assms show ?thesis
      by (simp add: recv_apply_typed wview_put_unit)
  qed
qed

lemma wview_recv_all:
  "wview R1 = wview R2 \<Longrightarrow> wview (recv_all ms R1) = wview (recv_all ms R2)"
proof (induction ms arbitrary: R1 R2)
  case (Cons m ms)
  from wview_recv_apply [OF Cons.prems, of m] have "wview (recv_apply m R1) = wview (recv_apply m R2)" .
  from Cons.IH [OF this] show ?case by simp
qed simp

lemma wview_lookup:
  "wview R = wview S \<Longrightarrow> map_option uview (map_of (units R) t) = map_option uview (map_of (units S) t)"
  by (simp add: wview_def map_of_uv [symmetric])

lemma recv_all_append [simp]: "recv_all (xs @ ys) W = recv_all ys (recv_all xs W)"
  by (induction xs arbitrary: W) simp_all

lemma recv_all_single:
  assumes "msgs_for t ms" and "map_of (units X) t = Some x"
  shows "wview (recv_all ms X) =
           (fst (rview (fold recv_unit ms (last_active_unit X, x))),
            AList.update t (snd (rview (fold recv_unit ms (last_active_unit X, x)))) (snd (wview X)))"
  using assms
proof (induction ms arbitrary: X x)
  case Nil
  have "map_of (snd (wview X)) t = Some (uview x)"
    using Nil.prems by (simp add: wview_def map_of_uv)
  then show ?case by (simp add: rview_def update_self wview_def)
next
  case (Cons m ms)
  have f: "msgs_for t ms" and ty: "msg_type m = None \<or> msg_type m = Some t"
    using Cons.prems(1) by (simp_all add: msgs_for_def)
  show ?case
  proof (cases "msg_type m")
    case None
    with Cons.IH [OF f Cons.prems(2)] show ?thesis
      by (simp add: recv_apply_untyped recv_unit_untyped)
  next
    case (Some t')
    with ty have t': "t' = t" by simp
    let ?s = "recv_unit m (last_active_unit X, x)"
    let ?X1 = "put_unit t (snd ?s) (X\<lparr>last_active_unit := fst ?s\<rparr>)"
    have X1: "recv_apply m X = ?X1" using Some t' Cons.prems(2) by (simp add: recv_apply_typed)
    have lk: "map_of (units ?X1) t = Some (snd ?s)" by (simp add: put_unit_def update_conv')
    from Cons.IH [OF f lk] X1 show ?thesis
      by (simp add: wview_put_unit update_twice)
  qed
qed

lemma wreplays_intro:
  assumes "outbox W' = outbox W @ n" and "wview (recv_all (internal_msgs n) W) = wview W'"
  shows "wreplays W W'"
  using assms by (simp add: wreplays_def sent_since_append)

lemma wreplays_elim:
  assumes "wreplays W W'"
  obtains n where "outbox W' = outbox W @ n" and "wview (recv_all (internal_msgs n) W) = wview W'"
proof
  let ?n = "drop (length (outbox W)) (outbox W')"
  from assms have "take (length (outbox W)) (outbox W') = outbox W" by (simp add: wreplays_def)
  then show "outbox W' = outbox W @ ?n"
    using append_take_drop_id [of "length (outbox W)" "outbox W'"] by simp
  from assms show "wview (recv_all (internal_msgs ?n) W) = wview W'"
    by (simp add: wreplays_def sent_since_def)
qed

lemma wreplays_trans:
  assumes "wreplays W W1" and "wreplays W1 W2"
  shows "wreplays W W2"
proof -
  from assms(1) obtain n1 where o1: "outbox W1 = outbox W @ n1"
    and v1: "wview (recv_all (internal_msgs n1) W) = wview W1" by (rule wreplays_elim)
  from assms(2) obtain n2 where o2: "outbox W2 = outbox W1 @ n2"
    and v2: "wview (recv_all (internal_msgs n2) W1) = wview W2" by (rule wreplays_elim)
  from wview_recv_all [OF v1, of "internal_msgs n2"] v2
  have "wview (recv_all (internal_msgs (n1 @ n2)) W) = wview W2" by simp
  moreover have "outbox W2 = outbox W @ (n1 @ n2)" using o1 o2 by simp
  ultimately show ?thesis by (intro wreplays_intro)
qed

lemma wreplays_refl: "outbox W' = outbox W \<Longrightarrow> wview W' = wview W \<Longrightarrow> wreplays W W'"
  by (rule wreplays_intro [where n = "[]"]) simp_all

lemma wreplays_put_unit:
  assumes lk: "map_of (units W) t = Some u" and r: "replays t u W r" and us: "units (snd r) = units W"
  shows "wreplays W (put_unit t (fst r) (snd r))"
proof -
  from r obtain n where o: "outbox (snd r) = outbox W @ n" and f: "msgs_for t (internal_msgs n)"
    and v: "rview (fold recv_unit (internal_msgs n) (last_active_unit W, u)) =
            (last_active_unit (snd r), uview (fst r))"
    by (rule replays_elim)
  from recv_all_single [OF f lk] v
  have "wview (recv_all (internal_msgs n) W) = wview (put_unit t (fst r) (snd r))"
    using us by (simp add: wview_def put_unit_def uv_update)
  with o show ?thesis by (intro wreplays_intro) (simp_all add: put_unit_def)
qed

lemma each_unit_wreplays:
  assumes m: "\<And>u w. distinct (selection u) \<Longrightarrow> replays (unit_type u) u w (m u w)"
    and us: "list_all (\<lambda>(t, u). unit_type u = t \<and> distinct (selection u)) us"
    and keys: "distinct (map fst (pre @ us))"
    and X: "wview X = wview (W\<lparr>units := pre @ us @ post\<rparr>)"
  shows "\<exists>n. outbox (snd (each_unit m us W)) = outbox W @ n \<and>
           wview (recv_all (internal_msgs n) X) =
             wview ((snd (each_unit m us W))\<lparr>units := pre @ fst (each_unit m us W) @ post\<rparr>)"
  using us keys X
proof (induction us arbitrary: pre W X)
  case Nil
  then show ?case by (intro exI [of _ "[]"]) simp
next
  case (Cons tu us)
  obtain t u where tu: "tu = (t, u)" by fastforce
  from Cons.prems(1) tu have ty: "unit_type u = t" and d: "distinct (selection u)"
    and rest: "list_all (\<lambda>(t, u). unit_type u = t \<and> distinct (selection u)) us" by simp_all
  from Cons.prems(2) tu have t: "t \<notin> set (map fst pre)" by simp
  let ?r = "m u W"
  from m [OF d, of W] ty have "replays t u W ?r" by simp
  then obtain n1 where o1: "outbox (snd ?r) = outbox W @ n1" and f1: "msgs_for t (internal_msgs n1)"
    and v1: "rview (fold recv_unit (internal_msgs n1) (last_active_unit W, u)) =
             (last_active_unit (snd ?r), uview (fst ?r))"
    by (rule replays_elim)
  have eq: "snd (wview X) = map (\<lambda>(t, u). (t, uview u)) pre @ (t, uview u) # map (\<lambda>(t, u). (t, uview u)) (us @ post)"
    using Cons.prems(3) tu by (simp add: wview_def)
  have nk: "t \<notin> set (map fst (map (\<lambda>(t, u). (t, uview u)) pre))"
    using t by (auto simp: image_iff)
  have "map_of (snd (wview X)) t = Some (uview u)"
    unfolding eq using nk by (rule map_of_append_hit)
  then have "map_option uview (map_of (units X) t) = Some (uview u)"
    by (simp add: wview_def map_of_uv)
  then obtain x where lk: "map_of (units X) t = Some x" and ux: "uview x = uview u" by auto
  have lx: "last_active_unit X = last_active_unit W"
    using Cons.prems(3) by (simp add: wview_def)
  have "rview (last_active_unit X, x) = rview (last_active_unit W, u)"
    using lx ux by (simp add: rview_def)
  from rview_fold [OF this, of "internal_msgs n1"] v1
  have v1': "rview (fold recv_unit (internal_msgs n1) (last_active_unit X, x)) =
             (last_active_unit (snd ?r), uview (fst ?r))" by simp
  let ?X1 = "recv_all (internal_msgs n1) X"
  have "wview ?X1 = wview ((snd ?r)\<lparr>units := (pre @ [(t, fst ?r)]) @ us @ post\<rparr>)"
    using recv_all_single [OF f1 lk] v1' Cons.prems(3) t tu
    by (simp add: wview_def uv_update update_append_hit [OF nk])
  moreover have "distinct (map fst ((pre @ [(t, fst ?r)]) @ us))"
    using Cons.prems(2) tu by simp
  ultimately obtain n2 where o2: "outbox (snd (each_unit m us (snd ?r))) = outbox (snd ?r) @ n2"
    and v2: "wview (recv_all (internal_msgs n2) ?X1) =
             wview ((snd (each_unit m us (snd ?r)))\<lparr>units := (pre @ [(t, fst ?r)]) @ fst (each_unit m us (snd ?r)) @ post\<rparr>)"
    using Cons.IH [OF rest] by blast
  show ?case
    using o1 o2 v2 tu by (intro exI [of _ "n1 @ n2"]) (simp add: split_beta)
qed

lemma sel_confirm_cancel_wreplays:
  assumes "world_inv W"
  shows "wreplays W (sel_confirm W)" and "wreplays W (sel_cancel W)"
proof -
  have us: "list_all (\<lambda>(t, u). unit_type u = t \<and> distinct (selection u)) (units W)"
    and keys: "distinct (map fst ([] @ units W))"
    using assms by (auto simp: world_inv_def unit_inv_def list_all_iff)
  have X: "wview W = wview (W\<lparr>units := [] @ units W @ []\<rparr>)" by (simp add: wview_def)
  from each_unit_wreplays [OF replays_unit_confirm us keys X]
  show "wreplays W (sel_confirm W)"
    by (auto simp: sel_confirm_def split_beta intro: wreplays_intro)
  from each_unit_wreplays [OF replays_unit_cancel us keys X]
  show "wreplays W (sel_cancel W)"
    by (auto simp: sel_cancel_def split_beta intro: wreplays_intro)
qed

lemma wreplays_with_unit:
  assumes inv: "world_inv W" and run: "with_unit t f W = Inr W'"
    and ok: "\<And>u. map_of (units W) t = Some u \<Longrightarrow> unit_type u = t \<Longrightarrow> unit_inv u \<Longrightarrow>
               replays t u W (f u W) \<and> io.more (snd (f u W)) = io.more W"
  shows "wreplays W W'"
proof -
  from run obtain u where lk: "map_of (units W) t = Some u"
    and W': "W' = put_unit t (fst (f u W)) (snd (f u W))"
    by (auto simp: with_unit_def split_beta split: option.splits)
  from world_inv_lookup [OF inv lk] ok [OF lk]
  have r: "replays t u W (f u W)" and m: "io.more (snd (f u W)) = io.more W" by simp_all
  from m have "units (snd (f u W)) = units W" by (rule more_eq_world(1))
  with lk r show ?thesis unfolding W' by (rule wreplays_put_unit)
qed

lemma wreplays_sel_select:
  assumes inv: "world_inv W" and run: "sel_select t v uo c W = Inr W'"
  shows "wreplays W W'"
proof -
  from run obtain u arg where lk: "map_of (units W) t = Some u" and arg: "id_arg_of v = Some arg"
    by (auto simp: sel_select_def split: option.splits)
  from world_inv_lookup [OF inv lk] have ty: "unit_type u = t" and d: "distinct (selection u)"
    by (simp_all add: unit_inv_def)
  let ?r = "c_select arg (default_true uo) (default_true c) u W"
  let ?W2 = "put_unit t (fst ?r) (snd ?r)"
  have "units (snd ?r) = units W" by (rule more_eq_world(1)) simp
  with lk replays_c_select [OF d] ty have w2: "wreplays W ?W2"
    by (metis wreplays_put_unit)
  have lau: "last_active_unit (snd ?r) \<in> {last_active_unit W, Some t}"
    using lau_confirmable(1) [of arg "default_true uo" "default_true c" u W] ty by simp
  have lk2: "map_of (units ?W2) t = Some (fst ?r)" by (simp add: update_conv')
  have act: "wreplays ?W2 (emit (Activated t (lastActive (fst ?r))) (?W2\<lparr>last_active_unit := Some t\<rparr>))"
  proof (rule wreplays_intro [where n = "send_to_all (Activated t (lastActive (fst ?r)))"])
    show "outbox (emit (Activated t (lastActive (fst ?r))) (?W2\<lparr>last_active_unit := Some t\<rparr>)) =
          outbox ?W2 @ send_to_all (Activated t (lastActive (fst ?r)))" by simp
    have "recv_apply (Activated t (lastActive (fst ?r))) ?W2 =
          put_unit t (fst ?r) (?W2\<lparr>last_active_unit := Some t\<rparr>)"
      using recv_apply_typed [OF _ lk2, of "Activated t (lastActive (fst ?r))"] by simp
    then show "wview (recv_all (internal_msgs (send_to_all (Activated t (lastActive (fst ?r))))) ?W2) =
          wview (emit (Activated t (lastActive (fst ?r))) (?W2\<lparr>last_active_unit := Some t\<rparr>))"
      by (simp add: wview_def put_unit_def update_twice emit_def)
  qed
  show ?thesis
  proof (cases "confirmed (fst ?r)")
    case True
    show ?thesis
    proof (cases "last_active_unit W \<noteq> Some t \<or> lastActive u \<noteq> lastActive (fst ?r)")
      case True
      with run lk arg \<open>confirmed (fst ?r)\<close> have "W' = emit (Activated t (lastActive (fst ?r))) (?W2\<lparr>last_active_unit := Some t\<rparr>)"
        by (simp add: sel_select_def split_beta Let_def del: emit_last_active_unit_update)
      with wreplays_trans [OF w2 act] show ?thesis by simp
    next
      case False
      with lau have "last_active_unit (snd ?r) = Some t" by auto
      then have "?W2\<lparr>last_active_unit := Some t\<rparr> = ?W2" by (simp add: lau_update_same)
      with False run lk arg \<open>confirmed (fst ?r)\<close> have "W' = ?W2"
        by (simp add: sel_select_def split_beta Let_def)
      with w2 show ?thesis by simp
    qed
  next
    case False
    with run lk arg have "W' = ?W2" by (simp add: sel_select_def split_beta Let_def)
    with w2 show ?thesis by simp
  qed
qed

subsection \<open>No hover slot holds the empty id\<close>

lemma lastHover_ops [simp]:
  "lastHover (fst (unit_select arg uo u w)) = lastHover u"
  "lastHover (fst (unit_unselect arg u w)) = lastHover u"
  "lastHover (fst (check_confirm c u w)) = lastHover u"
  "lastHover (fst (unit_confirm u w)) = lastHover u"
  "lastHover (fst (unit_clear u w)) = lastHover u"
  by (simp_all add: unit_select_parts unit_unselect_parts Let_def)

lemma lastHover_confirmable [simp]:
  "lastHover (fst (c_select arg uo c u w)) = lastHover u"
  "lastHover (fst (c_unselect arg c u w)) = lastHover u"
  "lastHover (fst (unit_cancel u w)) = lastHover u"
  "lastHover (fst (clear_then_confirm u w)) = lastHover u"
  by (simp_all add: c_select_def c_unselect_def unit_cancel_def clear_then_confirm_def split_beta)

lemma hovers_lookup: "hovers_ok W \<Longrightarrow> map_of (units W) t = Some u \<Longrightarrow> lastHover u \<noteq> Some []"
  by (force simp: hovers_ok_def dest: map_of_SomeD)

lemma hovers_put_unit:
  assumes "hovers_ok W" and "lastHover u' \<noteq> Some []" and "units W1 = units W"
  shows "hovers_ok (put_unit t u' W1)"
proof -
  let ?f = "\<lambda>(t, u). lastHover (u::cunit)"
  have "set (map ?f (AList.update t u' (units W))) \<subseteq> insert (lastHover u') (set (map ?f (units W)))"
    using set_map_update [of ?f t u' "units W"] by simp
  moreover have "Some [] \<notin> insert (lastHover u') (set (map ?f (units W)))"
    using assms(1,2) by (simp add: hovers_ok_def)
  ultimately have "Some [] \<notin> set (map ?f (AList.update t u' (units W)))" by blast
  with assms(3) show ?thesis by (simp add: hovers_ok_def put_unit_def)
qed

lemma hovers_with_unit:
  assumes hov: "hovers_ok W" and run: "with_unit t f W = Inr W'"
    and ok: "\<And>u. map_of (units W) t = Some u \<Longrightarrow> lastHover u \<noteq> Some [] \<Longrightarrow>
               lastHover (fst (f u W)) \<noteq> Some [] \<and> io.more (snd (f u W)) = io.more W"
  shows "hovers_ok W'"
proof -
  from run obtain u where lk: "map_of (units W) t = Some u"
    and W': "W' = put_unit t (fst (f u W)) (snd (f u W))"
    by (auto simp: with_unit_def split_beta split: option.splits)
  from ok [OF lk hovers_lookup [OF hov lk]]
  have h: "lastHover (fst (f u W)) \<noteq> Some []" and m: "io.more (snd (f u W)) = io.more W" by simp_all
  from m have "units (snd (f u W)) = units W" by (rule more_eq_world(1))
  with hov h show ?thesis unfolding W' by (rule hovers_put_unit)
qed

lemma each_unit_hovers:
  assumes "\<And>u w. lastHover (fst (m u w)) = lastHover u"
  shows "map (\<lambda>(t, u). lastHover u) (fst (each_unit m us W)) = map (\<lambda>(t, u). lastHover u) us"
  by (induction us arbitrary: W) (auto simp: split_beta assms)

lemma hovers_emit_lau [simp]:
  "hovers_ok (emit m W) = hovers_ok W"
  "hovers_ok (W\<lparr>last_active_unit := x\<rparr>) = hovers_ok W"
  "hovers_ok (W\<lparr>log := l\<rparr>) = hovers_ok W"
  by (simp_all add: hovers_ok_def)

lemma facade_step_hovers:
  assumes hov: "hovers_ok W" and rep: "rep_ok op" and step: "facade_step op W = Inr W'"
  shows "hovers_ok W'"
proof (cases op)
  case (Select t v uo c)
  from step Select have "sel_select t v uo c W = Inr W'" by simp
  then obtain arg W2 where wu: "with_unit t (c_select arg (default_true uo) (default_true c)) W = Inr W2"
    and W': "W' = W2 \<or> W' = W2\<lparr>last_active_unit := Some t\<rparr> \<or>
             (\<exists>m. W' = emit m (W2\<lparr>last_active_unit := Some t\<rparr>))"
    by (blast dest: sel_select_with_unit)
  have "hovers_ok W2" using hov wu by (rule hovers_with_unit) simp
  with W' show ?thesis by (auto simp del: emit_last_active_unit_update)
next
  case (Unselect t v c)
  with step obtain arg where "with_unit t (c_unselect arg (default_true c)) W = Inr W'"
    by (auto dest: sel_unselect_with_unit)
  with hov show ?thesis by (rule hovers_with_unit) simp
next
  case (Hover t i)
  with hov step rep show ?thesis by (auto simp: sel_hover_def intro: hovers_with_unit)
next
  case (SetContext t i)
  with hov step show ?thesis by (auto simp: sel_setContext_def intro: hovers_with_unit)
next
  case (PatchIds t src dest)
  from step PatchIds have wu: "with_unit t (unit_patch src dest) W = Inr W'" by (simp add: sel_patch_def)
  from rep PatchIds have "dest \<noteq> []" by simp
  with hov wu show ?thesis
    by (rule_tac hovers_with_unit) (auto simp: patch_fields_def patch_slot_def split: if_splits)
next
  case (Clear t)
  with hov step show ?thesis by (auto simp: sel_clear_def intro: hovers_with_unit)
next
  case ConfirmAll
  let ?e = "each_unit unit_confirm (units W) W"
  from step ConfirmAll have W': "W' = (snd ?e)\<lparr>units := fst ?e\<rparr>" by (simp add: sel_confirm_def split_beta)
  have "map (\<lambda>(t, u). lastHover u) (fst ?e) = map (\<lambda>(t, u). lastHover u) (units W)"
    by (rule each_unit_hovers) simp
  with hov show ?thesis unfolding W' hovers_ok_def by simp
next
  case CancelAll
  let ?e = "each_unit unit_cancel (units W) W"
  from step CancelAll have W': "W' = (snd ?e)\<lparr>units := fst ?e\<rparr>" by (simp add: sel_cancel_def split_beta)
  have "map (\<lambda>(t, u). lastHover u) (fst ?e) = map (\<lambda>(t, u). lastHover u) (units W)"
    by (rule each_unit_hovers) simp
  with hov show ?thesis unfolding W' hovers_ok_def by simp
qed (use rep in simp)

subsection \<open>Every replicated facade call is replayed\<close>

lemma facade_step_wreplays:
  assumes inv: "world_inv W" and hov: "hovers_ok W" and rep: "rep_ok op"
    and step: "facade_step op W = Inr W'"
  shows "wreplays W W'"
proof (cases op)
  case (Select t v uo c)
  with inv step show ?thesis by (simp add: wreplays_sel_select)
next
  case (Unselect t v c)
  with step obtain arg where wu: "with_unit t (c_unselect arg (default_true c)) W = Inr W'"
    by (auto dest: sel_unselect_with_unit)
  show ?thesis
    by (rule wreplays_with_unit [OF inv wu]) (auto simp: unit_inv_def replays_c_unselect [where u = u for u, simplified])
next
  case (Hover t i)
  from step Hover have wu: "with_unit t (unit_hover i) W = Inr W'" by (simp add: sel_hover_def)
  show ?thesis
  proof (rule wreplays_with_unit [OF inv wu])
    fix u assume lk: "map_of (units W) t = Some u" and ty: "unit_type u = t"
    have "replays (unit_type u) u W (unit_hover i u W)"
      using hovers_lookup [OF hov lk] rep Hover by (intro replays_unit_hover) simp_all
    with ty show "replays t u W (unit_hover i u W) \<and> io.more (snd (unit_hover i u W)) = io.more W" by simp
  qed
next
  case (SetContext t i)
  from step SetContext have wu: "with_unit t (unit_setContext i) W = Inr W'" by (simp add: sel_setContext_def)
  show ?thesis
    by (rule wreplays_with_unit [OF inv wu]) (metis replays_unit_setContext io_more_unit_ops)
next
  case (PatchIds t src dest)
  from step PatchIds have wu: "with_unit t (unit_patch src dest) W = Inr W'" by (simp add: sel_patch_def)
  show ?thesis
    by (rule wreplays_with_unit [OF inv wu]) (metis replays_unit_patch io_more_unit_ops)
next
  case (Clear t)
  from step Clear have wu: "with_unit t clear_then_confirm W = Inr W'" by (simp add: sel_clear_def)
  show ?thesis
    by (rule wreplays_with_unit [OF inv wu]) (metis replays_clear_then_confirm io_more_clear_then_confirm)
next
  case ConfirmAll
  with step sel_confirm_cancel_wreplays(1) [OF inv] show ?thesis by simp
next
  case CancelAll
  with step sel_confirm_cancel_wreplays(2) [OF inv] show ?thesis by simp
qed (use rep in simp)

lemma facade_apply_wreplays:
  assumes "world_inv W" and "hovers_ok W" and "rep_ok op"
  shows "wreplays W (facade_apply op W) \<and> hovers_ok (facade_apply op W)"
proof (cases "facade_step op W")
  case (Inl e)
  then show ?thesis using assms(2) by (simp add: facade_apply_def wreplays_refl)
next
  case (Inr W')
  with assms facade_step_wreplays facade_step_hovers show ?thesis by (simp add: facade_apply_def)
qed

lemma facade_run_wreplays:
  "world_inv W \<Longrightarrow> hovers_ok W \<Longrightarrow> ops_ok W ops \<Longrightarrow> list_all rep_ok ops \<Longrightarrow>
   wreplays W (facade_run ops W)"
proof (induction ops arbitrary: W)
  case Nil
  then show ?case by (simp add: wreplays_refl)
next
  case (Cons op ops)
  from Cons.prems have a: "wreplays W (facade_apply op W)" and h: "hovers_ok (facade_apply op W)"
    using facade_apply_wreplays by simp_all
  from Cons.prems have i: "world_inv (facade_apply op W)" by (simp add: facade_apply_inv)
  from Cons.IH [OF i h] Cons.prems have "wreplays (facade_apply op W) (facade_run ops (facade_apply op W))"
    by simp
  with a show ?case by (simp add: wreplays_trans)
qed

lemma rep_demo_value:
  "wview (facade_run rep_demo core_node) = (Some ''node'', [(''node'', [''a''], Some ''a'', Some ''a'', None)])"
  by (simp add: facade_eval wview_def uview_def sel_hover_def with_unit_def unit_hover_def
      sel_unselect_def unit_unselect_def unselect_remove_def Let_def)

text \<open>C3: Replication is a simulation of the sender. If a replica has the same view as
  a process that satisfies the registry invariant and has no empty hover id, then after
  any run of facade calls other than \<^verbatim>\<open>register\<close>, on well-formed inputs and with
  non-empty hover and patch target ids, the replica that applies the internal messages
  of the run in order has the same view as the process.\<close>

theorem replica_follows_sender:
  assumes "world_inv S" and "hovers_ok S" and "ops_ok S ops" and "list_all rep_ok ops"
    and "wview R = wview S"
  shows "wview (recv_all (sent_since S (facade_run ops S)) R) = wview (facade_run ops S)"
proof -
  from facade_run_wreplays [OF assms(1-4)] obtain n
    where o: "outbox (facade_run ops S) = outbox S @ n"
      and v: "wview (recv_all (internal_msgs n) S) = wview (facade_run ops S)"
    by (rule wreplays_elim)
  from wview_recv_all [OF assms(5), of "internal_msgs n"] v o show ?thesis
    by (simp add: sent_since_append)
qed

theorem replica_follows_sender_witness:
  "wview (recv_all (sent_since core_node (facade_run rep_demo core_node)) page_node) =
   (Some ''node'', [(''node'', [''a''], Some ''a'', Some ''a'', None)])"
  using replica_follows_sender [of core_node rep_demo page_node] rep_demo_value
  by (simp add: facade_eval world_inv_def unit_inv_def hovers_ok_def wview_def uview_def)

text \<open>C21: A hover on the empty string id desynchronises every replica. The sender
  stores it, but sends \<^verbatim>\<open>hoverout\<close> for the old id and no \<^verbatim>\<open>hoverin\<close>: the
  code tests truthiness where the spec says non-null. A replica that agreed with the
  sender ends with no hover.\<close>

theorem hover_empty_id_diverges:
  assumes inv: "world_inv S" and lk: "map_of (units S) t = Some u" and h: "lastHover u = Some h"
    and hne: "h \<noteq> []" and agree: "wview R = wview S" and hov: "sel_hover t (Some []) S = Inr S'"
  shows "sel_hovering t S' = Inr (Some []) \<and> sel_hovering t (recv_all (sent_since S S') R) = Inr None"
proof -
  from world_inv_lookup [OF inv lk] have ty: "unit_type u = t" by simp
  have S': "S' = put_unit t (u\<lparr>lastHover := Some []\<rparr>) (snd (unit_hover (Some []) u S))"
    using hov lk by (simp add: sel_hover_def with_unit_def split_beta)
  have "sent_since S S' = [HoverOut t (Some h)]"
    using S' h hne ty by (simp add: sent_since_def send_to_all_def)
  moreover obtain x where lkR: "map_of (units R) t = Some x"
    using wview_lookup [OF agree, of t] lk by (cases "map_of (units R) t") auto
  ultimately have "map_of (units (recv_all (sent_since S S') R)) t = Some (x\<lparr>lastHover := None\<rparr>)"
    by (simp add: recv_apply_typed update_conv')
  moreover have "map_of (units S') t = Some (u\<lparr>lastHover := Some []\<rparr>)"
    using S' by (simp add: update_conv')
  ultimately show ?thesis by (simp add: sel_hovering_def query_unit_def)
qed


theorem hover_empty_id_diverges_witness:
  "sel_hovering ''node'' (recv_all (sent_since (facade_apply (Hover ''node'' (Some ''a'')) core_node)
       (facade_apply (Hover ''node'' (Some [])) (facade_apply (Hover ''node'' (Some ''a'')) core_node)))
     ((facade_apply (Hover ''node'' (Some ''a'')) core_node)\<lparr>core_level := False\<rparr>)) = Inr None"
proof -
  let ?S = "facade_apply (Hover ''node'' (Some ''a'')) core_node"
  have inv: "world_inv ?S"
    by (simp add: facade_eval world_inv_def unit_inv_def sel_hover_def with_unit_def unit_hover_def)
  have "\<exists>S'. sel_hover ''node'' (Some []) ?S = Inr S'"
    by (simp add: facade_eval sel_hover_def with_unit_def unit_hover_def)
  then obtain S' where hov: "sel_hover ''node'' (Some []) ?S = Inr S'" ..
  have ap: "facade_apply (Hover ''node'' (Some [])) ?S = S'" using hov by (simp add: facade_apply_def)
  have "wview (?S\<lparr>core_level := False\<rparr>) = wview ?S" by (simp add: wview_def)
  from hover_empty_id_diverges [OF inv _ _ _ this hov, where u = "the (map_of (units ?S) ''node'')" and h = "''a''"]
  have "sel_hovering ''node'' (recv_all (sent_since ?S S') (?S\<lparr>core_level := False\<rparr>)) = Inr None"
    by (simp add: facade_eval sel_hover_def with_unit_def unit_hover_def)
  with ap show ?thesis by simp
qed

text \<open>C22: Registration is not replicated. \<^verbatim>\<open>register\<close> of a new type in the
  core process sends no message, so a replica that agreed with the core before the
  call still lacks the type afterwards, and a query for it reports the unknown type.\<close>

theorem register_not_replicated:
  assumes core: "core_level S" and new: "map_of (units S) t = None" and agree: "wview R = wview S"
  shows "map_of (units (facade_apply (Register t) S)) t = Some (new_cunit t) \<and>
         sent_since S (facade_apply (Register t) S) = [] \<and>
         sel_curSelection t (recv_all (sent_since S (facade_apply (Register t) S)) R) = Inl (UnknownType t)"
proof -
  have S': "facade_apply (Register t) S = S\<lparr>units := units S @ [(t, new_cunit t)]\<rparr>"
    using core new by (simp add: facade_apply_def sel_register_def)
  have "map_of (units R) t = None" using wview_lookup [OF agree, of t] new by simp
  with S' new show ?thesis
    by (simp add: sent_since_def sel_curSelection_def query_unit_def map_add_def)
qed


theorem register_not_replicated_witness:
  "sel_curSelection ''asset'' (recv_all (sent_since (init_world True) (facade_apply (Register ''asset'') (init_world True)))
     (init_world False)) = Inl (UnknownType ''asset'')"
  using register_not_replicated [of "init_world True" "''asset''" "init_world False"]
  by (simp add: facade_eval wview_def sent_since_def)

end
