(* ===== verification/Bootstrap.thy ===== *)
theory Bootstrap
  imports Replication
begin

text \<open>
  Bootstrap of \<^verbatim>\<open>src/share/selection.js\<close> (lines 684--725). The core process
  answers \<^verbatim>\<open>selection:get-registers\<close> with one row per registered type
  (\<open>get_registers\<close>, a row is the record \<open>reg_info\<close>); a page process pulls that
  table once at start and materialises a confirmed unit per row
  (\<open>page_init\<close>), taking the global active type from the row flagged
  \<^verbatim>\<open>isLastGlobalActive\<close>. \<open>bootstrap C P\<close> is the page \<open>P\<close> after that pull
  from the core \<open>C\<close>; the synchronous request itself is the transport.

  The theorems: a fresh page ends with exactly the core's replicated view; the loop of
  the page stops at the first type the page already has (the code \<^verbatim>\<open>return\<close>s where
  the spec says it skips the type); and a page that starts while a core unit is in a
  provisional selection gets a confirmed unit whose active id is not selected.
\<close>

record reg_info =
  ri_type :: sel_type
  ri_selection :: "obj_id list"
  ri_lastActive :: "obj_id option"
  ri_lastHover :: "obj_id option"
  ri_context :: "obj_id option"
  ri_isLastGlobalActive :: bool

text \<open>One row of the answer to \<^verbatim>\<open>selection:get-registers\<close> (lines 691--698).\<close>

definition reg_info_of :: "sel_type option \<Rightarrow> sel_type \<times> cunit \<Rightarrow> reg_info" where
  "reg_info_of lau tu =
    \<lparr>ri_type = fst tu, ri_selection = selection (snd tu), ri_lastActive = lastActive (snd tu),
     ri_lastHover = lastHover (snd tu), ri_context = context_id (snd tu),
     ri_isLastGlobalActive = (lau = Some (fst tu))\<rparr>"

text \<open>The core's handler (lines 686--701): the rows in the order \<^verbatim>\<open>for (key in _units)\<close>
  visits the table.\<close>

definition get_registers :: "world \<Rightarrow> reg_info list" where
  "get_registers W = map (reg_info_of (last_active_unit W)) (units W)"

text \<open>\<^verbatim>\<open>new ConfirmableSelectionUnit(info.type)\<close> with the row's fields copied in
  (lines 712--716).\<close>

definition unit_of_info :: "reg_info \<Rightarrow> cunit" where
  "unit_of_info info =
    (new_cunit (ri_type info))\<lparr>selection := ri_selection info, lastActive := ri_lastActive info,
       lastHover := ri_lastHover info, context_id := ri_context info\<rparr>"

text \<open>The page's loop (lines 707--723): an already registered type ends the whole
  loop by \<^verbatim>\<open>return\<close>.\<close>

fun page_init :: "reg_info list \<Rightarrow> world \<Rightarrow> world" where
  "page_init [] W = W"
| "page_init (info # infos) W =
    (if map_of (units W) (ri_type info) \<noteq> None then W
     else (let W1 = put_unit (ri_type info) (unit_of_info info) W;
               W2 = (if ri_isLastGlobalActive info then W1\<lparr>last_active_unit := Some (ri_type info)\<rparr> else W1)
           in page_init infos W2))"

definition bootstrap :: "world \<Rightarrow> world \<Rightarrow> world" where
  "bootstrap C P = page_init (get_registers C) P"

text \<open>The core after the calls of the examples, and the core in the middle of a
  provisional selection of \<^verbatim>\<open>a\<close> alone over \<^verbatim>\<open>[a, b]\<close> with \<^verbatim>\<open>b\<close> active.\<close>

abbreviation core_ab :: world where
  "core_ab \<equiv> facade_run demo_ops (init_world True)"

abbreviation core_mid :: world where
  "core_mid \<equiv> facade_run (demo_ops @ [Select ''node'' (JsArray [''a'']) None (Some False)]) (init_world True)"

subsection \<open>Materialisation\<close>

lemma uview_unit_of_info [simp]:
  "uview (unit_of_info (reg_info_of l tu)) = uview (snd tu)"
  "confirmed (unit_of_info info)"
  by (simp_all add: unit_of_info_def reg_info_of_def uview_def new_cunit_def)

lemma page_init_fresh:
  assumes "distinct (map fst (pre @ us))" and "map fst (units P) = map fst pre"
    and "snd (wview P) = map (\<lambda>(t, u). (t, uview u)) pre"
    and "last_active_unit P = (if l \<in> Some ` set (map fst pre) then l else None)"
  shows "wview (page_init (map (reg_info_of l) us) P) =
           ((if l \<in> Some ` set (map fst (pre @ us)) then l else None),
            map (\<lambda>(t, u). (t, uview u)) (pre @ us))"
  using assms
proof (induction us arbitrary: pre P)
  case Nil
  then show ?case by (simp add: wview_def)
next
  case (Cons tu us)
  obtain t u where tu: "tu = (t, u)" by fastforce
  have "set (map fst (units P)) = set (map fst pre)" using Cons.prems(2) by simp
  then have fresh: "map_of (units P) t = None"
    using Cons.prems(1) tu by (simp add: map_of_eq_None_iff)
  let ?W1 = "put_unit t (unit_of_info (reg_info_of l tu)) P"
  let ?W2 = "if l = Some t then ?W1\<lparr>last_active_unit := Some t\<rparr> else ?W1"
  have step: "page_init (map (reg_info_of l) (tu # us)) P = page_init (map (reg_info_of l) us) ?W2"
    using fresh tu by (simp add: reg_info_of_def Let_def)
  have k: "map fst (units ?W2) = map fst (pre @ [(t, u)])"
    using fresh Cons.prems(2) by (simp add: put_unit_def update_fresh)
  have v: "snd (wview ?W2) = map (\<lambda>(t, u). (t, uview u)) (pre @ [(t, u)])"
    using fresh Cons.prems(3) tu by (simp add: wview_def put_unit_def update_fresh)
  have l: "last_active_unit ?W2 = (if l \<in> Some ` set (map fst (pre @ [(t, u)])) then l else None)"
    using Cons.prems(4) by auto
  have d: "distinct (map fst ((pre @ [(t, u)]) @ us))" using Cons.prems(1) tu by simp
  from Cons.IH [OF d k v l] step tu show ?case by simp
qed

lemma bootstrap_view:
  assumes inv: "world_inv C" and e: "units P = []" and l: "last_active_unit P = None"
  shows "wview (bootstrap C P) = wview C"
proof -
  have d: "distinct (map fst ([] @ units C))" using inv by (simp add: world_inv_def)
  have "last_active_unit P = (if last_active_unit C \<in> Some ` set (map fst []) then last_active_unit C else None)"
    using l by simp
  from page_init_fresh [OF d _ _ this] e
  have "wview (bootstrap C P) =
          ((if last_active_unit C \<in> Some ` set (map fst (units C)) then last_active_unit C else None),
           map (\<lambda>(t, u). (t, uview u)) (units C))"
    by (simp add: bootstrap_def get_registers_def wview_def)
  moreover have "set_option (last_active_unit C) \<subseteq> set (map fst (units C))"
    using inv by (simp add: world_inv_def)
  ultimately show ?thesis by (cases "last_active_unit C") (auto simp: wview_def)
qed

lemma page_init_confirmed:
  "list_all (\<lambda>(t, u). confirmed u \<and> unit_type u = t) (units P) \<Longrightarrow>
   list_all (\<lambda>(t, u). confirmed u \<and> unit_type u = t) (units (page_init infos P))"
proof (induction infos arbitrary: P)
  case (Cons i infos)
  have "list_all (\<lambda>(t, u). confirmed u \<and> unit_type u = t) (units (put_unit (ri_type i) (unit_of_info i) P))"
    using Cons.prems by (simp add: put_unit_def list_all_update unit_of_info_def new_cunit_def)
  with Cons.IH Cons.prems show ?case by (simp add: Let_def)
qed simp

subsection \<open>Properties of the bootstrap\<close>

text \<open>C8: Bootstrap is a round trip of the replicated state. A page with no unit and no
  global active type that pulls the table of a core satisfying the registry invariant
  ends with exactly the core's view (types in the same order, each with its selection,
  active, hover and context id, and the same global active type), and every unit it
  creates is confirmed and stored under its own type.\<close>

theorem bootstrap_round_trip:
  assumes "world_inv C" and "units P = []" and "last_active_unit P = None"
  shows "wview (bootstrap C P) = wview C \<and>
         list_all (\<lambda>(t, u). confirmed u \<and> unit_type u = t) (units (bootstrap C P))"
  using bootstrap_view [OF assms] page_init_confirmed [of P "get_registers C"] assms(2)
  by (simp add: bootstrap_def)

theorem bootstrap_round_trip_witness:
  "wview (bootstrap core_ab (init_world False)) = (Some ''node'', [(''node'', [''a'', ''b''], Some ''b'', None, None)])"
  using bootstrap_round_trip [of core_ab "init_world False"]
  by (simp add: facade_eval world_inv_def unit_inv_def wview_def uview_def)

text \<open>C23: The page's loop stops at the first row whose type the page already has:
  the result is that of the rows before it alone, so every later type is left out,
  where the spec says such a type is skipped.\<close>

theorem page_init_stops:
  assumes "k < length infos" and "map_of (units P) (ri_type (infos ! k)) \<noteq> None"
  shows "page_init infos P = page_init (take k infos) P"
  using assms
proof (induction infos arbitrary: P k)
  case (Cons i infos)
  show ?case
  proof (cases k)
    case 0
    with Cons.prems show ?thesis by simp
  next
    case (Suc k')
    show ?thesis
    proof (cases "map_of (units P) (ri_type i) = None")
      case True
      let ?W1 = "put_unit (ri_type i) (unit_of_info i) P"
      let ?W2 = "if ri_isLastGlobalActive i then ?W1\<lparr>last_active_unit := Some (ri_type i)\<rparr> else ?W1"
      have "map_of (units ?W2) (ri_type (infos ! k')) \<noteq> None"
        using Cons.prems(2) Suc by (auto simp: put_unit_def update_conv')
      with Cons.IH [of k' ?W2] Cons.prems(1) Suc True show ?thesis by (simp add: Let_def)
    qed (simp add: Suc)
  qed
qed simp

theorem page_init_stops_witness:
  "map_of (units (page_init (get_registers (facade_run [Register ''node'', Register ''asset''] (init_world True)))
     page_node)) ''asset'' = None"
  using page_init_stops [of 0 "get_registers (facade_run [Register ''node'', Register ''asset''] (init_world True))"
      page_node]
  by (simp add: facade_eval get_registers_def reg_info_of_def)

text \<open>C24: The table carries no transaction state. A page that starts while a core unit
  is in a provisional selection that unselected its active id gets a confirmed unit with
  that id active and not selected, so the page starts outside the registry invariant.\<close>

theorem bootstrap_mid_transaction:
  assumes inv: "world_inv C" and e: "units P = []" and l: "last_active_unit P = None"
    and lk: "map_of (units C) t = Some u" and act: "lastActive u = Some a" and out: "a \<notin> set (selection u)"
  shows "\<not> world_inv (bootstrap C P)"
proof
  assume invB: "world_inv (bootstrap C P)"
  have "map_option uview (map_of (units (bootstrap C P)) t) = map_option uview (map_of (units C) t)"
    using bootstrap_view [OF inv e l] by (simp add: wview_def map_of_uv [symmetric])
  with lk obtain v where v: "map_of (units (bootstrap C P)) t = Some v" and uv: "uview v = uview u"
    by (cases "map_of (units (bootstrap C P)) t") auto
  have "list_all (\<lambda>(t, u). confirmed u \<and> unit_type u = t) (units (bootstrap C P))"
    using page_init_confirmed [of P "get_registers C"] e by (simp add: bootstrap_def)
  with v have "confirmed v" by (auto simp: list_all_iff dest: map_of_SomeD)
  moreover from world_inv_lookup [OF invB v] have "unit_inv v" by simp
  ultimately show False using uv act out by (simp add: unit_inv_def uview_def)
qed

theorem bootstrap_mid_transaction_witness:
  "\<not> world_inv (bootstrap core_mid (init_world False))"
  using bootstrap_mid_transaction [of core_mid "init_world False" "''node''"
      "the (map_of (units core_mid) ''node'')" "''b''"]
  by (simp add: facade_eval world_inv_def unit_inv_def)

end
