(* ===== verification/SelFilter.thy ===== *)
theory SelFilter
  imports Prelude
begin

text \<open>
  \<^verbatim>\<open>Selection.filter(items, mode, func)\<close> (\<^verbatim>\<open>src/share/selection.js\<close>,
  lines 516--555). In mode \<^verbatim>\<open>name\<close> it is \<^verbatim>\<open>items.filter(func)\<close>; in every
  other mode it scans the items once and keeps a result list: a candidate equal to a
  kept item, or dominated by one (\<^verbatim>\<open>func(addedItem, item) > 0\<close>), is dropped; a
  kept item the candidate dominates (\<^verbatim>\<open>func(...) < 0\<close>) is spliced out and the scan
  goes on. The JavaScript callback is modelled by its two readings: as a predicate (the
  truthiness of \<^verbatim>\<open>func(item)\<close>; a predicate that reads its index or array argument
  is not modelled) and as a comparator with an integer result.
\<close>

text \<open>The inner \<^verbatim>\<open>for (j ...)\<close> loop: whether the candidate is added, and the
  result list after the splices made before the loop stopped.\<close>

fun filter_scan :: "('a \<Rightarrow> 'a \<Rightarrow> int) \<Rightarrow> 'a \<Rightarrow> 'a list \<Rightarrow> bool \<times> 'a list" where
  "filter_scan f item [] = (True, [])"
| "filter_scan f item (r # rs) =
    (if item = r then (False, r # rs)
     else (let cmp = f r item
           in if 0 < cmp then (False, r # rs)
              else if cmp < 0 then filter_scan f item rs
              else (let (add, rs1) = filter_scan f item rs in (add, r # rs1))))"

text \<open>The outer \<^verbatim>\<open>for (i ...)\<close> loop over the items.\<close>

fun filter_loop :: "('a \<Rightarrow> 'a \<Rightarrow> int) \<Rightarrow> 'a list \<Rightarrow> 'a list \<Rightarrow> 'a list" where
  "filter_loop f results [] = results"
| "filter_loop f results (item # items) =
    (let (add, rs) = filter_scan f item results
     in filter_loop f (if add then rs @ [item] else rs) items)"

definition sel_filter ::
  "'a list \<Rightarrow> string \<Rightarrow> ('a \<Rightarrow> bool) \<Rightarrow> ('a \<Rightarrow> 'a \<Rightarrow> int) \<Rightarrow> 'a list" where
  "sel_filter items mode func_pred func_cmp =
    (if mode = ''name'' then filter func_pred items else filter_loop func_cmp [] items)"

subsection \<open>What a comparator must satisfy\<close>

text \<open>
  The spec reads \<open>f a b > 0\<close> as "\<open>a\<close> dominates \<open>b\<close>" (an ancestor of it) and
  \<open>f a b < 0\<close> as the converse. A comparator is consistent on a set when these two
  readings agree and dominance is transitive there.
\<close>

definition consistent :: "('a \<Rightarrow> 'a \<Rightarrow> int) \<Rightarrow> 'a set \<Rightarrow> bool" where
  "consistent f A \<longleftrightarrow>
     (\<forall>a\<in>A. \<forall>b\<in>A. 0 < f a b \<longleftrightarrow> f b a < 0) \<and>
     (\<forall>a\<in>A. \<forall>b\<in>A. \<forall>c\<in>A. 0 < f a b \<longrightarrow> 0 < f b c \<longrightarrow> 0 < f a c)"

definition antichain :: "('a \<Rightarrow> 'a \<Rightarrow> int) \<Rightarrow> 'a list \<Rightarrow> bool" where
  "antichain f xs \<longleftrightarrow> (\<forall>a\<in>set xs. \<forall>b\<in>set xs. \<not> 0 < f a b)"

definition covers :: "('a \<Rightarrow> 'a \<Rightarrow> int) \<Rightarrow> 'a list \<Rightarrow> 'a \<Rightarrow> bool" where
  "covers f rs x \<longleftrightarrow> (\<exists>r\<in>set rs. r = x \<or> 0 < f r x)"

text \<open>The path-prefix comparator of the spec's example: \<open>a\<close> dominates \<open>b\<close> when
  \<open>b\<close> lies under the directory \<open>a\<close>.\<close>

definition under :: "string \<Rightarrow> string \<Rightarrow> bool" where
  "under a b \<longleftrightarrow> take (Suc (length a)) b = a @ ''/''"

definition ancestor_cmp :: "string \<Rightarrow> string \<Rightarrow> int" where
  "ancestor_cmp a b = (if under a b then 1 else if under b a then -1 else 0)"


subsection \<open>The scan keeps a covering antichain\<close>

lemma consistent_mono: "consistent f A \<Longrightarrow> B \<subseteq> A \<Longrightarrow> consistent f B"
  unfolding consistent_def by (meson subsetD)

lemma consistent_irrefl: "consistent f A \<Longrightarrow> a \<in> A \<Longrightarrow> \<not> 0 < f a a"
  unfolding consistent_def by (meson less_asym)


lemma consistent_sym:
  "consistent f A \<Longrightarrow> a \<in> A \<Longrightarrow> b \<in> A \<Longrightarrow> 0 < f a b \<longleftrightarrow> f b a < 0"
  unfolding consistent_def by blast

lemma consistent_trans:
  "consistent f A \<Longrightarrow> a \<in> A \<Longrightarrow> b \<in> A \<Longrightarrow> c \<in> A \<Longrightarrow> 0 < f a b \<Longrightarrow> 0 < f b c \<Longrightarrow> 0 < f a c"
  unfolding consistent_def by blast

lemma filter_scan_spec:
  assumes "antichain f res" and "consistent f (insert i (set res))"
  shows "filter_scan f i res =
           (if covers f res i then (False, res) else (True, filter (\<lambda>r. \<not> 0 < f i r) res))"
  using assms
proof (induction res)
  case Nil
  then show ?case by (simp add: covers_def)
next
  case (Cons r rs)
  have ac: "antichain f rs" using Cons.prems(1) by (simp add: antichain_def)
  have cs: "consistent f (insert i (set rs))" using Cons.prems(2) by (rule consistent_mono) auto
  note IH = Cons.IH [OF ac cs]
  have sym: "0 < f i r \<longleftrightarrow> f r i < 0"
    using consistent_sym [OF Cons.prems(2)] by simp
  show ?case
  proof (cases "i = r \<or> 0 < f r i")
    case True
    then show ?thesis by (auto simp: covers_def)
  next
    case False
    then have ne: "i \<noteq> r" and nd: "\<not> 0 < f r i" by simp_all
    show ?thesis
    proof (cases "f r i < 0")
      case True
      have "\<not> covers f rs i"
      proof
        assume "covers f rs i"
        then obtain r2 where r2: "r2 \<in> set rs" "r2 = i \<or> 0 < f r2 i" by (auto simp: covers_def)
        have ir: "0 < f i r" using True sym by simp
        have "0 < f r2 r"
        proof (cases "r2 = i")
          case True
          with ir show ?thesis by simp
        next
          case False
          with r2 have "0 < f r2 i" by simp
          from consistent_trans [OF Cons.prems(2) _ _ _ this ir] r2(1) show ?thesis by simp
        qed
        with r2(1) Cons.prems(1) show False by (simp add: antichain_def)
      qed
      with True ne nd IH sym show ?thesis by (simp add: covers_def)
    next
      case False
      with nd have z: "f r i = 0" by simp
      with sym have "\<not> 0 < f i r" by simp
      with z ne IH show ?thesis by (simp add: covers_def split_beta)
    qed
  qed
qed


lemma covers_trans:
  assumes "consistent f A" "set R \<subseteq> A" "y \<in> A" "x \<in> A"
    and "covers f R y" and "y = x \<or> 0 < f y x"
  shows "covers f R x"
proof -
  from assms(5) obtain r where r: "r \<in> set R" "r = y \<or> 0 < f r y" by (auto simp: covers_def)
  have "r = x \<or> 0 < f r x"
  proof (cases "r = y")
    case True
    with assms(6) show ?thesis by simp
  next
    case False
    with r have ry: "0 < f r y" by simp
    show ?thesis
    proof (cases "y = x")
      case True
      with ry show ?thesis by simp
    next
      case False
      with assms(6) have "0 < f y x" by simp
      with consistent_trans [OF assms(1) _ assms(3,4) ry] r(1) assms(2) show ?thesis by auto
    qed
  qed
  with r(1) show ?thesis by (auto simp: covers_def)
qed

lemma filter_loop_spec:
  assumes "antichain f res" and "distinct res" and "consistent f (set res \<union> set items)"
  shows "antichain f (filter_loop f res items) \<and> distinct (filter_loop f res items) \<and>
         set (filter_loop f res items) \<subseteq> set res \<union> set items \<and>
         (\<forall>x\<in>set res \<union> set items. covers f (filter_loop f res items) x)"
  using assms
proof (induction items arbitrary: res)
  case Nil
  then show ?case by (auto simp: covers_def)
next
  case (Cons i ys)
  let ?A = "set res \<union> set (i # ys)"
  have cs1: "consistent f (insert i (set res))" using Cons.prems(3) by (rule consistent_mono) auto
  note scan = filter_scan_spec [OF Cons.prems(1) cs1]
  show ?case
  proof (cases "covers f res i")
    case True
    let ?R = "filter_loop f res ys"
    have run: "filter_loop f res (i # ys) = ?R" using True scan by simp
    have "consistent f (set res \<union> set ys)" using Cons.prems(3) by (rule consistent_mono) auto
    note IH = Cons.IH [OF Cons.prems(1,2) this]
    from True obtain r0 where r0: "r0 \<in> set res" "r0 = i \<or> 0 < f r0 i" by (auto simp: covers_def)
    have "covers f ?R i"
      using covers_trans [OF Cons.prems(3), of ?R r0 i] IH r0 by auto
    with IH run show ?thesis by auto
  next
    case False
    let ?res2 = "filter (\<lambda>r. \<not> 0 < f i r) res @ [i]"
    let ?R = "filter_loop f ?res2 ys"
    have run: "filter_loop f res (i # ys) = ?R" using False scan by simp
    have ni: "\<forall>r\<in>set res. r \<noteq> i \<and> \<not> 0 < f r i" using False by (auto simp: covers_def)
    have irr: "\<not> 0 < f i i" using consistent_irrefl [OF Cons.prems(3)] by simp
    have ac2: "antichain f ?res2"
      using Cons.prems(1) ni irr by (auto simp: antichain_def)
    have d2: "distinct ?res2" using Cons.prems(2) ni by auto
    have "consistent f (set ?res2 \<union> set ys)" using Cons.prems(3) by (rule consistent_mono) auto
    note IH = Cons.IH [OF ac2 d2 this]
    have ci: "covers f ?R i" using IH by simp
    have "covers f ?R x" if x: "x \<in> set res" for x
    proof (cases "0 < f i x")
      case True
      show ?thesis using covers_trans [OF Cons.prems(3), of ?R i x] IH ci True x by auto
    next
      case False
      with x IH show ?thesis by simp
    qed
    with IH run show ?thesis by auto
  qed
qed


text \<open>C5: In every mode but \<^verbatim>\<open>name\<close>, for a comparator that is consistent on the
  items, the result is a duplicate-free antichain of items that covers every item: each
  item is in the result or dominated by a member of it.\<close>

theorem filter_top_level_correct:
  assumes "mode \<noteq> ''name''" and "consistent f (set items)"
  shows "antichain f (sel_filter items mode p f) \<and> distinct (sel_filter items mode p f) \<and>
         set (sel_filter items mode p f) \<subseteq> set items \<and>
         (\<forall>x\<in>set items. covers f (sel_filter items mode p f) x)"
  using filter_loop_spec [of f "[]" items] assms
  by (simp add: sel_filter_def antichain_def)

theorem filter_top_level_correct_witness:
  "covers ancestor_cmp (sel_filter [''/a'', ''/a/b'', ''/c''] ''top-level'' (\<lambda>_. True) ancestor_cmp) ''/a/b''"
  using filter_top_level_correct [of "''top-level''" ancestor_cmp "[''/a'', ''/a/b'', ''/c'']" "\<lambda>_. True"]
  by (simp add: consistent_def ancestor_cmp_def under_def)

text \<open>The consistency hypothesis is needed. With a comparator whose dominance is not transitive, a candidate can splice
  out a kept item and then be dropped itself, so an item is lost: neither kept nor
  dominated by a kept item.\<close>

theorem filter_nontransitive_loses_item:
  "let f = (\<lambda>x y :: nat. if (x, y) = (0, 2) \<or> (x, y) = (2, 1) then -1
                          else if (x, y) = (2, 0) \<or> (x, y) = (1, 2) then 1 else (0::int))
   in sel_filter [0, 1, 2] ''deep'' (\<lambda>_. True) f = [1] \<and> \<not> covers f [1] 0"
  by (simp add: sel_filter_def covers_def)

end
