(* ===== verification/Spec2Isabelle.thy ===== *)
theory Spec2Isabelle
  imports Bootstrap SelFilter
begin

text \<open>
  \<^bold>\<open>A verification development of the selection module of editor-framework.\<close>

  The program is \<^verbatim>\<open>src/share/selection.js\<close>: per-type selection state replicated
  across the processes of the editor. A caller uses the facade
  \<^verbatim>\<open>Editor.Selection\<close>, which looks the per-type unit up and calls one of its
  mutators. The mutator changes the local state and broadcasts each change twice through
  \<^verbatim>\<open>_sendToAll\<close>: a public \<^verbatim>\<open>selection:xxx\<close> message and an internal
  \<^verbatim>\<open>_selection:xxx\<close> copy for every other process. Those processes' handlers write
  the same change into their replica without sending anything. A page process that
  starts later pulls the whole table from the core process once.

  \<^bold>\<open>Theories and the code they model.\<close>
  \<^item> \<open>Prelude\<close>: the id types, JavaScript truthiness (\<open>truthy\<close>), the lodash
    primitives \<^verbatim>\<open>_.difference\<close> and \<^verbatim>\<open>_.intersection\<close> (\<open>ld_difference\<close>,
    \<open>ld_intersection\<close>), \<^verbatim>\<open>indexOf\<close> and the in-place write
    (\<open>index_of\<close>, \<open>replace_first\<close>), with their list and association-list lemmas.
  \<^item> \<open>Messages\<close>: the message catalog (\<open>msg\<close>), \<^verbatim>\<open>_sendToAll\<close>
    (\<open>send_to_all\<close>, \<open>emit\<close>), and the process-wide part \<open>io\<close> of the state:
    the pointer \<^verbatim>\<open>_lastActiveUnit\<close>, kept as a type key, and the outbox of sent
    envelopes.
  \<^item> \<open>Unit\<close>: \<^verbatim>\<open>SelectionUnit\<close> (lines 36--215) as the record \<open>sunit\<close>. Every
    method is a function from a unit and the \<open>io\<close> state to both updated:
    \<open>unit_select\<close>, \<open>unit_unselect\<close>, \<open>unit_hover\<close>, \<open>unit_setContext\<close>,
    \<open>unit_patch\<close>, \<open>contexts\<close>, \<open>unit_clear\<close>. This theory also holds the
    invariant \<open>unit_inv\<close>.
  \<^item> \<open>Confirmable\<close>: \<^verbatim>\<open>ConfirmableSelectionUnit\<close> (lines 217--274) as the record
    extension \<open>cunit\<close>. It models the transaction of a provisional selection
    (\<open>check_confirm\<close>, \<open>c_select\<close>, \<open>c_unselect\<close>, \<open>unit_confirm\<close>,
    \<open>unit_cancel\<close>) and the overriding \<^verbatim>\<open>_activate\<close>, which the base methods call.
  \<^item> \<open>Registry\<close>: the facade (lines 276--514) on the process state \<open>world\<close>
    (\<open>io\<close>, the table \<^verbatim>\<open>_units\<close> as an association list in insertion order, the
    core-level flag and the log). One definition per facade method: \<open>sel_register\<close>,
    \<open>sel_select\<close>, \<open>sel_unselect\<close>, \<open>sel_hover\<close>, \<open>sel_setContext\<close>,
    \<open>sel_patch\<close>, \<open>sel_clear\<close>, \<open>sel_confirm\<close>, \<open>sel_cancel\<close> and the queries.
    A logged early return is the value \<open>Inl\<close> of \<open>sel_error\<close>; \<open>facade_apply\<close>
    writes it to the log. This theory also has the registry invariant \<open>world_inv\<close>,
    the well-formed inputs \<open>op_ok\<close>, and the inductive set \<open>reachable\<close> of
    process states.
  \<^item> \<open>SelFilter\<close>: \<^verbatim>\<open>Selection.filter\<close> (lines 516--555) as \<open>filter_scan\<close>,
    \<open>filter_loop\<close> and \<open>sel_filter\<close>.
  \<^item> \<open>Replication\<close>: the \<^verbatim>\<open>_selection:*\<close> handlers (lines 560--680) as
    \<open>recv_unit\<close>, \<open>recv\<close> and \<open>recv_apply\<close>. \<open>recv_all\<close> is the per-sender
    FIFO delivery of the transport, which is modelled from the spec. The replicated view
    is \<open>wview\<close>.
  \<^item> \<open>Bootstrap\<close>: \<^verbatim>\<open>selection:get-registers\<close> and the page-level start-up
    loop (lines 684--725) as \<open>get_registers\<close>, \<open>page_init\<close> and \<open>bootstrap\<close>.

  \<^bold>\<open>What is proved.\<close>
  \<^item> The transaction: cancel restores the members of the selection and confirm commits
    the provisional one with a single activation. Cancel does not restore their order,
    and the commit activates the last id in the unit's order, not the last id passed.
  \<^item> The registry invariant is preserved by every run of calls that satisfies
    \<open>op_ok\<close>, and so holds in every reachable state. Each condition of \<open>op_ok\<close> is
    needed, and a theorem shows the break for each:
    \<^item> a duplicated id in \<^verbatim>\<open>select\<close>;
    \<^item> \<^verbatim>\<open>select([])\<close>, which keeps a stale active id;
    \<^item> \<^verbatim>\<open>patch\<close> of the active id during a transaction, which \<^verbatim>\<open>cancel\<close>
      turns into an active id that is not selected, because \<^verbatim>\<open>patch\<close> does not
      rewrite the snapshot.
  \<^item> Errors: an unknown type and a malformed id argument only log.
  \<^item> Activation: \<^verbatim>\<open>select\<close> sets the global active unit, and it broadcasts
    \<^verbatim>\<open>activated\<close> twice when activation moves.
  \<^item> \<^verbatim>\<open>patch\<close> with a fresh target is a round trip that moves every occurrence
    of the source id. It is not a round trip when the target already occupies a slot.
  \<^item> \<^verbatim>\<open>contexts\<close> puts the context id in front, as a permutation of the
    selection.
  \<^item> The hierarchy filter returns a covering antichain for every consistent
    comparator.
  \<^item> Replication is a simulation. Each unit operation's messages, replayed from its
    old state, give its new state (\<open>replays\<close>). This lifts to the table
    (\<open>wreplays\<close>) and composes over runs, so a replica stays equal to its sender on
    the replicated view. It fails in two ways, each proved for every state:
    \<^item> a hover on the empty string id, because the code tests truthiness;
    \<^item> \<^verbatim>\<open>register\<close>, which is not broadcast.
  \<^item> Bootstrap reproduces the core's view in a fresh page. Its loop stops at the first
    type the page already has. A page that starts during a transaction starts outside the
    invariant.
  \<^item> Below, both halves combine: a page that bootstraps and then replays the core's
    messages equals the core after any run.

  \<^bold>\<open>Bounds and fuel.\<close> None are needed. Every loop of the code (\<^verbatim>\<open>for\<close>
  over a list or over the table) is structural recursion, so every definition is total
  and executable, and the examples evaluate by \<open>simp\<close>.

  \<^bold>\<open>Not modelled.\<close>
  \<^item> The transport, \<^verbatim>\<open>Editor.error\<close>/\<^verbatim>\<open>warn\<close> (only the fact of a log
    line is kept) and window management (\<^verbatim>\<open>src/test/main/window.js\<close>).
  \<^item> Concurrent senders: the spec accepts diverging order there.
  \<^item> Three JavaScript details the model abstracts:
    \<^item> \<^verbatim>\<open>_units[type]\<close> also finds \<^verbatim>\<open>Object.prototype\<close> members such as
      \<^verbatim>\<open>toString\<close>, where the code throws or silently refuses to register;
      the model treats these type names as ordinary;
    \<^item> \<^verbatim>\<open>for (p in _units)\<close> visits integer-like keys first, where the model
      uses insertion order;
    \<^item> \<^verbatim>\<open>undefined\<close> and \<^verbatim>\<open>null\<close> ids are both \<open>None\<close>.
  \<^item> The callback of \<^verbatim>\<open>filter\<close> is read either as a predicate of the item alone
    or as a comparator.
\<close>

subsection \<open>A page process joins and follows the core\<close>

text \<open>C4: Bootstrap followed by replication keeps a page process equal to the core.
  A page with no unit that pulls the table of a core satisfying the registry invariant
  and then applies, in order, the internal messages the core sends during any run of
  facade calls other than \<^verbatim>\<open>register\<close> on well-formed inputs, with non-empty hover
  and patch target ids, has the same replicated view as the core after the run.\<close>

theorem bootstrap_then_replay:
  assumes inv: "world_inv C" and hov: "hovers_ok C" and ok: "ops_ok C ops" and rep: "list_all rep_ok ops"
    and e: "units P = []" and l: "last_active_unit P = None"
  shows "wview (recv_all (sent_since C (facade_run ops C)) (bootstrap C P)) = wview (facade_run ops C)"
proof -
  from facade_run_wreplays [OF inv hov ok rep] obtain n
    where o: "outbox (facade_run ops C) = outbox C @ n"
      and v: "wview (recv_all (internal_msgs n) C) = wview (facade_run ops C)"
    by (rule wreplays_elim)
  from wview_recv_all [OF bootstrap_view [OF inv e l], of "internal_msgs n"] v o show ?thesis
    by (simp add: sent_since_append)
qed

theorem bootstrap_then_replay_witness:
  "wview (recv_all (sent_since core_node (facade_run rep_demo core_node)) (bootstrap core_node (init_world False))) =
   (Some ''node'', [(''node'', [''a''], Some ''a'', Some ''a'', None)])"
  using bootstrap_then_replay [of core_node rep_demo "init_world False"] rep_demo_value
  by (simp add: facade_eval world_inv_def unit_inv_def hovers_ok_def)

end
